theory Spec2Isabelle
  imports Main "HOL-Library.Sublist" "HOL-Library.AList"
begin

text \<open>
  The rename routine of the command line tool (\<open>renameProject\<close> and
  \<open>getFiles\<close> in \<open>src/index.js\<close>, with the action of the \<open>rename\<close>
  command that calls it) as functions on an explicit project tree, and what the
  routine does to package names, dependency keys, source files and
  documentation.
\<close>

section \<open>JavaScript string operations used by the rename routine\<close>

text \<open>
  Strings are character lists.  \<open>startsWith\<close> is \<^const>\<open>prefix\<close> and the
  suffix test of the extension regex is \<^const>\<open>suffix\<close>.  \<open>includes\<close> scans
  the text for the first position at which the pattern is a prefix.
\<close>

fun js_includes :: "string \<Rightarrow> string \<Rightarrow> bool" where
  "js_includes [] pat = (pat = [])"
| "js_includes (c # cs) pat = (prefix pat (c # cs) \<or> js_includes cs pat)"

text \<open>
  \<open>s.split(sep)\<close>: the pieces between the successive leftmost occurrences of
  the separator, the search resuming after each occurrence.  \<open>cur\<close> is the piece
  being collected.  An empty separator splits into single characters.
\<close>

function split_from :: "string \<Rightarrow> string \<Rightarrow> string \<Rightarrow> string list" where
  "split_from sep cur [] = [cur]"
| "split_from sep cur (c # cs) =
     (if sep \<noteq> [] \<and> prefix sep (c # cs)
      then cur # split_from sep [] (drop (length sep) (c # cs))
      else split_from sep (cur @ [c]) cs)"
  by pat_completeness auto
termination
  by (relation "measure (\<lambda>(sep, cur, s). length s)") auto

definition split :: "string \<Rightarrow> string \<Rightarrow> string list" where
  "split s sep = (if sep = [] then map (\<lambda>c. [c]) s else split_from sep [] s)"

text \<open>\<open>pieces.join(sep)\<close>.\<close>

fun join :: "string \<Rightarrow> string list \<Rightarrow> string" where
  "join sep [] = []"
| "join sep [p] = p"
| "join sep (p # q # ps) = p @ sep @ join sep (q # ps)"

text \<open>
  The replacement argument of \<open>String.prototype.replace\<close> is a template:
  \<open>$$\<close> stands for a dollar sign, \<open>$&\<close> for the matched text, \<open>$`\<close> for the
  text before the match and \<open>$'\<close> for the text after it.  None of the patterns
  used here has a capture group, so every other \<open>$\<close> is literal.
\<close>

fun getSubstitution :: "string \<Rightarrow> string \<Rightarrow> string \<Rightarrow> string \<Rightarrow> string" where
  "getSubstitution matched pre post [] = []"
| "getSubstitution matched pre post [c] = [c]"
| "getSubstitution matched pre post (c # d # ds) =
     (if c = CHR ''$'' then
        (if d = CHR ''$'' then CHR ''$'' # getSubstitution matched pre post ds
         else if d = CHR ''&'' then matched @ getSubstitution matched pre post ds
         else if d = CHR 0x60 then pre @ getSubstitution matched pre post ds
         else if d = CHR 0x27 then post @ getSubstitution matched pre post ds
         else c # getSubstitution matched pre post (d # ds))
      else c # getSubstitution matched pre post (d # ds))"

text \<open>
  \<open>s.replace(pat, template)\<close> with a string pattern: only the first occurrence
  is replaced.  \<open>seen\<close> is the text already passed over.
\<close>

fun replace_from :: "string \<Rightarrow> string \<Rightarrow> string \<Rightarrow> string \<Rightarrow> string" where
  "replace_from pat template seen [] =
     (if pat = [] then seen @ getSubstitution pat seen [] template else seen)"
| "replace_from pat template seen (c # cs) =
     (if prefix pat (c # cs)
      then seen @ getSubstitution pat seen (drop (length pat) (c # cs)) template
             @ drop (length pat) (c # cs)
      else replace_from pat template (seen @ [c]) cs)"

definition replace :: "string \<Rightarrow> string \<Rightarrow> string \<Rightarrow> string" where
  "replace s pat template = replace_from pat template [] s"

text \<open>
  \<open>s.replace(/pat/g, template)\<close> for a pattern that is a literal, non-empty
  string: every match, found left to right without overlap, is replaced.
\<close>

function replaceAll_from :: "string \<Rightarrow> string \<Rightarrow> string \<Rightarrow> string \<Rightarrow> string" where
  "replaceAll_from pat template seen [] = []"
| "replaceAll_from pat template seen (c # cs) =
     (if pat \<noteq> [] \<and> prefix pat (c # cs)
      then getSubstitution pat seen (drop (length pat) (c # cs)) template
             @ replaceAll_from pat template (seen @ pat) (drop (length pat) (c # cs))
      else c # replaceAll_from pat template (seen @ [c]) cs)"
  by pat_completeness auto
termination
  by (relation "measure (\<lambda>(pat, template, seen, s). length s)") auto

definition replaceAll :: "string \<Rightarrow> string \<Rightarrow> string \<Rightarrow> string" where
  "replaceAll s pat template = replaceAll_from pat template [] s"

section \<open>Name validation and title case\<close>

text \<open>
  The \<open>rename\<close> command tests a name against \<open>/^[a-z0-9-_]+$/\<close> before the
  rename routine runs (line 155); the routine itself does not test it.
\<close>

definition validChar :: "char \<Rightarrow> bool" where
  "validChar c =
     (let k = (of_char c :: nat)
      in (97 \<le> k \<and> k \<le> 122) \<or> (48 \<le> k \<and> k \<le> 57) \<or> c = CHR ''-'' \<or> c = CHR ''_'')"

definition validName :: "string \<Rightarrow> bool" where
  "validName n = (n \<noteq> [] \<and> list_all validChar n)"

text \<open>
  The title case of lines 314--317.  \<open>toUpperCase\<close> is given on the ASCII
  letters, which is all a valid name can hold; other characters are kept.
\<close>

definition toUpperCase :: "char \<Rightarrow> char" where
  "toUpperCase c =
     (let k = (of_char c :: nat) in if 97 \<le> k \<and> k \<le> 122 then char_of (k - 32) else c)"

definition capitalize :: "string \<Rightarrow> string" where
  "capitalize w = (case w of [] \<Rightarrow> [] | c # cs \<Rightarrow> toUpperCase c # cs)"

definition titleCase :: "string \<Rightarrow> string" where
  "titleCase newName = join '' '' (map capitalize (split newName ''-''))"

section \<open>The project tree\<close>

text \<open>
  A manifest as far as the routine reads it.  \<open>name\<close> is \<open>None\<close> when the
  field is missing or is not a string: calling \<open>startsWith\<close> on it raises a
  TypeError in both cases.  \<open>dependencies\<close> and \<open>devDependencies\<close> are
  \<open>None\<close> when the field is missing, falsy or not an object with keys (the loop
  over its keys does nothing then); otherwise they are the object's entries in key
  order, keys distinct.  \<open>otherFields\<close> holds the rest of the manifest, which
  the routine writes back as read.
\<close>

record manifest =
  name :: "string option"
  dependencies :: "(string \<times> string) list option"
  devDependencies :: "(string \<times> string) list option"
  otherFields :: "(string \<times> string) list"

text \<open>
  What \<open>readJson\<close> can return: an object, an array, or \<open>null\<close> and the
  primitive values (\<open>JOther\<close>).  A file that is not JSON makes it throw.
\<close>

datatype json = JObject manifest | JArray | JOther

datatype json_file = Unreadable | Parsed json

datatype error = JsonError | TypeError

datatype outcome = Returned | Threw error

definition readJson :: "json_file \<Rightarrow> error + json" where
  "readJson f = (case f of Unreadable \<Rightarrow> Inl JsonError | Parsed data \<Rightarrow> Inr data)"

text \<open>A source tree: files with their text, folders with their entries.\<close>

datatype node = File string string | Folder string "node list"

text \<open>
  An entry of \<open>packages/\<close>: a plain file, or a directory with its optional
  \<open>package.json\<close>, \<open>src\<close> folder and \<open>index.html\<close>.
\<close>

record pkgdir =
  packageJson :: "json_file option"
  src :: "node list option"
  indexHtml :: "string option"

datatype entry = PlainFile | Directory pkgdir

text \<open>
  The project root: its optional \<open>package.json\<close>, the listing of
  \<open>packages/\<close> in the order \<open>readdir\<close> returns it, and its optional
  \<open>README.md\<close>.  Where \<open>packages\<close>, \<open>src\<close>, \<open>README.md\<close> or
  \<open>index.html\<close> exist, they are taken to be of the kind the routine expects (a
  directory, a directory, a file, a file).
\<close>

record project =
  rootPackageJson :: "json_file option"
  packages :: "(string \<times> entry) list option"
  readme :: "string option"

section \<open>The file lister and file access\<close>

text \<open>
  \<open>getFiles\<close> (lines 325--334) maps every entry of a directory to its path, a
  sub-directory to the paths below it, and concatenates the results in listing
  order.  Paths are lists of names below \<open>src\<close>.
\<close>

fun getFiles :: "string list \<Rightarrow> node list \<Rightarrow> string list list" where
  "getFiles dir [] = []"
| "getFiles dir (File n c # ns) = (dir @ [n]) # getFiles dir ns"
| "getFiles dir (Folder n cs # ns) = getFiles (dir @ [n]) cs @ getFiles dir ns"

fun readFile :: "node list \<Rightarrow> string list \<Rightarrow> string option" where
  "readFile [] p = None"
| "readFile (File n c # ns) p =
     (case p of [] \<Rightarrow> None
      | q # qs \<Rightarrow> if q = n then (if qs = [] then Some c else None) else readFile ns p)"
| "readFile (Folder n cs # ns) p =
     (case p of [] \<Rightarrow> None
      | q # qs \<Rightarrow> if q = n then readFile cs qs else readFile ns p)"

text \<open>
  \<open>writeFile\<close> replaces the text of the file at a path.  The routine only
  writes to paths it has just read, so a path that names no file changes nothing
  here.
\<close>

fun writeFile :: "node list \<Rightarrow> string list \<Rightarrow> string \<Rightarrow> node list" where
  "writeFile [] p text = []"
| "writeFile (File n c # ns) p text =
     (case p of [] \<Rightarrow> File n c # ns
      | q # qs \<Rightarrow>
          if q = n then (if qs = [] then File n text # ns else File n c # ns)
          else File n c # writeFile ns p text)"
| "writeFile (Folder n cs # ns) p text =
     (case p of [] \<Rightarrow> Folder n cs # ns
      | q # qs \<Rightarrow>
          if q = n then Folder n (writeFile cs qs text) # ns
          else Folder n cs # writeFile ns p text)"

text \<open>
  The extension test of line 283 matches at the end of the path, hence at the end
  of its last name: the extensions hold no path separator.
\<close>

definition hasSourceExt :: "string \<Rightarrow> bool" where
  "hasSourceExt n =
     (suffix ''.ts'' n \<or> suffix ''.tsx'' n \<or> suffix ''.js'' n \<or> suffix ''.jsx'' n)"

definition isSourceFile :: "string list \<Rightarrow> bool" where
  "isSourceFile file = (file \<noteq> [] \<and> hasSourceExt (last file))"

section \<open>The shared rename logic\<close>

subsection \<open>Scope detection\<close>

text \<open>
  The loop over the listing of \<open>packages/\<close> (lines 206--223).  An entry without a
  \<open>package.json\<close> below it is passed over (a plain file has none).  The first
  manifest whose name starts with \<open>@\<close> and contains \<open>/\<close> sets
  \<open>currentScopeFull\<close> and ends the loop; when the loop runs out, the initial
  value \<open>@repo\<close> stands.  The result is \<open>currentScopeFull\<close>.
\<close>

definition nameOf :: "json \<Rightarrow> error + string" where
  "nameOf data =
     (case data of
        JObject m \<Rightarrow> (case name m of None \<Rightarrow> Inl TypeError | Some n \<Rightarrow> Inr n)
      | JArray \<Rightarrow> Inl TypeError
      | JOther \<Rightarrow> Inl TypeError)"

fun detectScope :: "(string \<times> entry) list \<Rightarrow> error + string" where
  "detectScope [] = Inr ''@repo''"
| "detectScope ((pkg, PlainFile) # rest) = detectScope rest"
| "detectScope ((pkg, Directory d) # rest) =
     (case packageJson d of
        None \<Rightarrow> detectScope rest
      | Some f \<Rightarrow>
          (case readJson f of
             Inl e \<Rightarrow> Inl e
           | Inr data \<Rightarrow>
               (case nameOf data of
                  Inl e \<Rightarrow> Inl e
                | Inr n \<Rightarrow>
                    if prefix ''@'' n \<and> js_includes n ''/''
                    then (case split n ''/'' of [] \<Rightarrow> Inl TypeError | p # ps \<Rightarrow> Inr p)
                    else detectScope rest)))"

subsection \<open>The root manifest\<close>

text \<open>
  Lines 229--235: \<open>data.name = newName\<close> on what \<open>readJson\<close> returned.  On \<open>null\<close> and
  on a primitive value the assignment raises a TypeError (the file is a module,
  hence strict code); on an array it succeeds, and \<open>writeJson\<close> writes the
  array back without the property.
\<close>

definition updateRoot :: "string \<Rightarrow> json_file option \<Rightarrow> error + json_file option" where
  "updateRoot newName file =
     (case file of
        None \<Rightarrow> Inr None
      | Some f \<Rightarrow>
          (case readJson f of
             Inl e \<Rightarrow> Inl e
           | Inr (JObject m) \<Rightarrow> Inr (Some (Parsed (JObject (m\<lparr>name := Some newName\<rparr>))))
           | Inr JArray \<Rightarrow> Inr (Some (Parsed JArray))
           | Inr JOther \<Rightarrow> Inl TypeError))"

subsection \<open>Package manifests\<close>

text \<open>
  One round of the loop over \<open>Object.keys(data.dependencies)\<close> (lines 257--263,
  and again 267--273 for \<open>devDependencies\<close>): the entry is
  assigned to the new key (in place when the key exists, at the end otherwise) and
  the old key is deleted.  A key whose value is \<open>undefined\<close> by then would be
  assigned \<open>undefined\<close>, which \<open>writeJson\<close> leaves out.
\<close>

definition rekeyStep :: "string \<Rightarrow> string \<Rightarrow> string \<Rightarrow> (string \<times> string) list \<Rightarrow> (string \<times> string) list" where
  "rekeyStep oldScopeToken newScopeToken dep deps =
     (if prefix oldScopeToken dep then
        let newDep = replace dep oldScopeToken newScopeToken
        in AList.delete dep
             (case map_of deps dep of
                Some v \<Rightarrow> AList.update newDep v deps
              | None \<Rightarrow> AList.delete newDep deps)
      else deps)"

definition rekey :: "string \<Rightarrow> string \<Rightarrow> (string \<times> string) list \<Rightarrow> (string \<times> string) list" where
  "rekey oldScopeToken newScopeToken deps =
     fold (rekeyStep oldScopeToken newScopeToken) (map fst deps) deps"

definition updateManifest :: "string \<Rightarrow> string \<Rightarrow> json \<Rightarrow> error + json" where
  "updateManifest oldScopeToken newScopeToken data =
     (case data of
        JObject m \<Rightarrow>
          (case name m of
             None \<Rightarrow> Inl TypeError
           | Some n \<Rightarrow>
               Inr (JObject (m\<lparr>
                 name := Some (if prefix oldScopeToken n
                               then replace n oldScopeToken newScopeToken else n),
                 dependencies := map_option (rekey oldScopeToken newScopeToken) (dependencies m),
                 devDependencies :=
                   map_option (rekey oldScopeToken newScopeToken) (devDependencies m)\<rparr>)))
      | JArray \<Rightarrow> Inl TypeError
      | JOther \<Rightarrow> Inl TypeError)"

subsection \<open>Source files\<close>

text \<open>
  The body of the loop over the source files (lines 284--297), for one file's text: the texts
  handed to \<open>writeFile\<close>, in order.  The second test reads the text as the
  first replacement left it.
\<close>

definition boilerplate :: string where
  "boilerplate = ''modern-fullstack-boilerplate''"

definition sourceWrites :: "string \<Rightarrow> string \<Rightarrow> string \<Rightarrow> string \<Rightarrow> string list" where
  "sourceWrites oldScopeToken newScopeToken newName content =
     (let w1 = (if js_includes content oldScopeToken
                then [join newScopeToken (split content oldScopeToken)] else []);
          content1 = last (content # w1);
          w2 = (if js_includes content1 boilerplate
                then [replaceAll content1 boilerplate newName] else [])
      in w1 @ w2)"

definition rewriteSourceFile :: "string \<Rightarrow> string \<Rightarrow> string \<Rightarrow> string list \<Rightarrow> node list \<Rightarrow> node list" where
  "rewriteSourceFile oldScopeToken newScopeToken newName file tree =
     (if isSourceFile file then
        (case readFile tree file of
           None \<Rightarrow> tree
         | Some content \<Rightarrow>
             fold (\<lambda>text t. writeFile t file text)
               (sourceWrites oldScopeToken newScopeToken newName content) tree)
      else tree)"

definition rewriteSources :: "string \<Rightarrow> string \<Rightarrow> string \<Rightarrow> node list \<Rightarrow> node list" where
  "rewriteSources oldScopeToken newScopeToken newName tree =
     fold (rewriteSourceFile oldScopeToken newScopeToken newName) (getFiles [] tree) tree"

subsection \<open>The loop over the packages\<close>

text \<open>
  One entry of \<open>packages/\<close> (lines 241--301): a directory with a \<open>package.json\<close> has its
  manifest rewritten, then its sources.  Reading the manifest and reading its name
  can throw; nothing of the entry has been written by then.
\<close>

definition updateEntry :: "string \<Rightarrow> string \<Rightarrow> string \<Rightarrow> entry \<Rightarrow> error + entry" where
  "updateEntry oldScopeToken newScopeToken newName e =
     (case e of
        PlainFile \<Rightarrow> Inr PlainFile
      | Directory d \<Rightarrow>
          (case packageJson d of
             None \<Rightarrow> Inr (Directory d)
           | Some f \<Rightarrow>
               (case readJson f of
                  Inl err \<Rightarrow> Inl err
                | Inr data \<Rightarrow>
                    (case updateManifest oldScopeToken newScopeToken data of
                       Inl err \<Rightarrow> Inl err
                     | Inr data' \<Rightarrow>
                         Inr (Directory (d\<lparr>
                           packageJson := Some (Parsed data'),
                           src := map_option
                             (rewriteSources oldScopeToken newScopeToken newName) (src d)\<rparr>))))))"

text \<open>
  The loop stops at the first entry that throws; the entries before it stay as
  rewritten, that entry and those after it stay as they were.
\<close>

fun updatePackages :: "string \<Rightarrow> string \<Rightarrow> string \<Rightarrow> (string \<times> entry) list \<Rightarrow> outcome \<times> (string \<times> entry) list" where
  "updatePackages oldScopeToken newScopeToken newName [] = (Returned, [])"
| "updatePackages oldScopeToken newScopeToken newName ((pkg, e) # rest) =
     (case updateEntry oldScopeToken newScopeToken newName e of
        Inl err \<Rightarrow> (Threw err, (pkg, e) # rest)
      | Inr e' \<Rightarrow>
          (case updatePackages oldScopeToken newScopeToken newName rest of
             (r, rest') \<Rightarrow> (r, (pkg, e') # rest')))"

subsection \<open>README and HTML\<close>

text \<open>Lines 306--322: both replacements are global regex replacements.\<close>

definition rewriteDoc :: "string \<Rightarrow> string \<Rightarrow> string" where
  "rewriteDoc newName content =
     replaceAll (replaceAll content ''Modern Fullstack Boilerplate'' (titleCase newName))
       boilerplate newName"

text \<open>\<open>packages/frontend/index.html\<close>, when there is such a file.\<close>

fun updateIndexHtml :: "string \<Rightarrow> (string \<times> entry) list \<Rightarrow> (string \<times> entry) list" where
  "updateIndexHtml newName [] = []"
| "updateIndexHtml newName ((pkg, e) # rest) =
     (if pkg = ''frontend'' then
        (pkg, case e of
                PlainFile \<Rightarrow> PlainFile
              | Directory d \<Rightarrow>
                  Directory (d\<lparr>indexHtml := map_option (rewriteDoc newName) (indexHtml d)\<rparr>))
          # rest
      else (pkg, e) # updateIndexHtml newName rest)"

definition updateExtraFiles :: "string \<Rightarrow> project \<Rightarrow> project" where
  "updateExtraFiles newName fs =
     fs\<lparr>readme := map_option (rewriteDoc newName) (readme fs),
        packages := map_option (updateIndexHtml newName) (packages fs)\<rparr>"

subsection \<open>renameProject\<close>

text \<open>
  The result is how the call ended and the project tree as the call left it:
  what was written before an exception stays written.
\<close>

definition currentScope :: "project \<Rightarrow> error + string" where
  "currentScope fs = (case packages fs of None \<Rightarrow> Inr ''@repo'' | Some ps \<Rightarrow> detectScope ps)"

definition renameProject :: "project \<Rightarrow> string \<Rightarrow> outcome \<times> project" where
  "renameProject fs newName =
     (case currentScope fs of
        Inl e \<Rightarrow> (Threw e, fs)
      | Inr currentScopeFull \<Rightarrow>
          let oldScopeToken = currentScopeFull @ ''/'';
              newScopeToken = ''@'' @ newName @ ''/''
          in (case updateRoot newName (rootPackageJson fs) of
                Inl e \<Rightarrow> (Threw e, fs)
              | Inr root' \<Rightarrow>
                  let fs1 = fs\<lparr>rootPackageJson := root'\<rparr>
                  in (case packages fs1 of
                        None \<Rightarrow> (Returned, updateExtraFiles newName fs1)
                      | Some ps \<Rightarrow>
                          (case updatePackages oldScopeToken newScopeToken newName ps of
                             (Threw e, ps') \<Rightarrow> (Threw e, fs1\<lparr>packages := Some ps'\<rparr>)
                           | (Returned, ps') \<Rightarrow>
                               (Returned,
                                updateExtraFiles newName (fs1\<lparr>packages := Some ps'\<rparr>))))))"

section \<open>The rename command\<close>

text \<open>
  The action of the \<open>rename\<close> command (lines 146--198), with what it prints and
  calls recorded as a list of events; moving the folder is taken to succeed.  The environment says whether the target directory exists
  (and what it holds), whether it is the working directory, and whether a sibling
  named as the new name exists.
\<close>

datatype event =
    LogMissingDirectory
  | LogInvalidName
  | Exit nat
  | CallRenameProject string string
  | SpinnerSucceed
  | SpinnerFail error
  | WarnFolderExists
  | FolderRenamed string
  | NoteInsideFolder

record env =
  target :: "project option"
  targetIsCwd :: bool
  siblingExists :: bool

definition renameCommand :: "env \<Rightarrow> string \<Rightarrow> string \<Rightarrow> event list \<times> project option" where
  "renameCommand w targetDir newName =
     (case target w of
        None \<Rightarrow> ([LogMissingDirectory, Exit 1], None)
      | Some fs \<Rightarrow>
          if \<not> validName newName then ([LogInvalidName, Exit 1], Some fs)
          else
            (case renameProject fs newName of
               (Threw e, fs1) \<Rightarrow> ([CallRenameProject targetDir newName, SpinnerFail e], Some fs1)
             | (Returned, fs1) \<Rightarrow>
                 (case renameProject fs1 newName of
                    (Threw e, fs2) \<Rightarrow>
                      ([CallRenameProject targetDir newName, SpinnerSucceed,
                        CallRenameProject targetDir newName, SpinnerFail e], Some fs2)
                  | (Returned, fs2) \<Rightarrow>
                      ([CallRenameProject targetDir newName, SpinnerSucceed,
                        CallRenameProject targetDir newName, SpinnerSucceed]
                       @ (if \<not> targetIsCwd w
                          then (if siblingExists w then [WarnFolderExists]
                                else [FolderRenamed newName])
                          else [NoteInsideFolder]),
                       Some fs2))))"

section \<open>Vocabulary of the statements\<close>

text \<open>
  Replacing every occurrence of a literal pattern, read from left to right
  without overlap, and copying every other character: what the description of the
  source rewrite calls replacing all literal occurrences.  The two replacements
  of the source (\<open>split\<close> and \<open>join\<close>, and a global regex) are compared with
  it below.
\<close>

function substituteAll :: "string \<Rightarrow> string \<Rightarrow> string \<Rightarrow> string" where
  "substituteAll pat rep [] = []"
| "substituteAll pat rep (c # cs) =
     (if pat \<noteq> [] \<and> prefix pat (c # cs)
      then rep @ substituteAll pat rep (drop (length pat) (c # cs))
      else c # substituteAll pat rep cs)"
  by pat_completeness auto
termination
  by (relation "measure (\<lambda>(pat, rep, s). length s)") auto

text \<open>
  What rekeying a dependency mapping from an old token to a new one means: an
  entry under the old token and a rest is found, with its value, under the new
  token and that rest, and no longer under its old key; a key that neither begins
  with the old token nor is the new key of such an entry keeps what it had.
\<close>

definition rekeyed :: "string \<Rightarrow> string \<Rightarrow> (string \<times> string) list \<Rightarrow> (string \<times> string) list \<Rightarrow> bool" where
  "rekeyed old new deps deps' =
     ((\<forall>rest v. map_of deps (old @ rest) = Some v \<longrightarrow>
          map_of deps' (new @ rest) = Some v \<and> map_of deps' (old @ rest) = None) \<and>
      (\<forall>k. \<not> prefix old k \<and> (\<forall>rest. k = new @ rest \<longrightarrow> map_of deps (old @ rest) = None) \<longrightarrow>
          map_of deps' k = map_of deps k))"

text \<open>
  An entry the detection loop passes over: it neither sets the scope nor throws.
\<close>

definition passedOver :: "entry \<Rightarrow> bool" where
  "passedOver e =
     (case e of
        PlainFile \<Rightarrow> True
      | Directory d \<Rightarrow>
          (case packageJson d of
             None \<Rightarrow> True
           | Some Unreadable \<Rightarrow> False
           | Some (Parsed (JObject m)) \<Rightarrow>
               (case name m of
                  None \<Rightarrow> False
                | Some n \<Rightarrow> \<not> (prefix ''@'' n \<and> js_includes n ''/''))
           | Some (Parsed JArray) \<Rightarrow> False
           | Some (Parsed JOther) \<Rightarrow> False))"

text \<open>
  An entry the package loop gets through: a plain file, a directory without
  manifest, or a directory whose manifest is an object with a string name.
\<close>

definition updatable :: "entry \<Rightarrow> bool" where
  "updatable e =
     (case e of
        PlainFile \<Rightarrow> True
      | Directory d \<Rightarrow>
          (case packageJson d of
             None \<Rightarrow> True
           | Some Unreadable \<Rightarrow> False
           | Some (Parsed (JObject m)) \<Rightarrow> name m \<noteq> None
           | Some (Parsed JArray) \<Rightarrow> False
           | Some (Parsed JOther) \<Rightarrow> False))"

definition updatedEntry :: "string \<Rightarrow> string \<Rightarrow> string \<Rightarrow> entry \<Rightarrow> entry" where
  "updatedEntry oldScopeToken newScopeToken newName e =
     (case updateEntry oldScopeToken newScopeToken newName e of Inl err \<Rightarrow> e | Inr e' \<Rightarrow> e')"

definition updatedEntries :: "string \<Rightarrow> string \<Rightarrow> (string \<times> entry) list \<Rightarrow> (string \<times> entry) list" where
  "updatedEntries currentScopeFull newName ps =
     map (\<lambda>(pkg, e). (pkg, updatedEntry (currentScopeFull @ ''/'') (''@'' @ newName @ ''/'') newName e)) ps"

text \<open>
  The manifest of a package by its directory name, and the two documentation
  files, as a project holds them.
\<close>

definition entryManifest :: "entry \<Rightarrow> manifest option" where
  "entryManifest e =
     (case e of
        PlainFile \<Rightarrow> None
      | Directory d \<Rightarrow>
          (case packageJson d of Some (Parsed (JObject m)) \<Rightarrow> Some m | _ \<Rightarrow> None))"

definition packageManifest :: "project \<Rightarrow> string \<Rightarrow> manifest option" where
  "packageManifest fs pkg =
     (case packages fs of
        None \<Rightarrow> None
      | Some ps \<Rightarrow> (case map_of ps pkg of None \<Rightarrow> None | Some e \<Rightarrow> entryManifest e))"

definition entryIndexHtml :: "entry \<Rightarrow> string option" where
  "entryIndexHtml e = (case e of PlainFile \<Rightarrow> None | Directory d \<Rightarrow> indexHtml d)"

definition documentation :: "project \<Rightarrow> string option \<times> string option" where
  "documentation fs =
     (readme fs,
      case packages fs of
        None \<Rightarrow> None
      | Some ps \<Rightarrow> (case map_of ps ''frontend'' of None \<Rightarrow> None | Some e \<Rightarrow> entryIndexHtml e))"

text \<open>
  A directory listing names each entry once, at every level.
\<close>

fun nodeName :: "node \<Rightarrow> string" where
  "nodeName (File n c) = n"
| "nodeName (Folder n cs) = n"

fun wfTree :: "node list \<Rightarrow> bool" where
  "wfTree [] = True"
| "wfTree (File n c # ns) = (n \<notin> set (map nodeName ns) \<and> wfTree ns)"
| "wfTree (Folder n cs # ns) = (n \<notin> set (map nodeName ns) \<and> wfTree cs \<and> wfTree ns)"

text \<open>
  The text of a source file after the loop body has run on it: the last text
  written, or its own text when nothing was written.
\<close>

definition finalText :: "string \<Rightarrow> string \<Rightarrow> string \<Rightarrow> string \<Rightarrow> string" where
  "finalText oldScopeToken newScopeToken newName content =
     last (content # sourceWrites oldScopeToken newScopeToken newName content)"

text \<open>
The events of the folder step that follows the calls of the rename command.
\<close>

definition relocationStep :: "event \<Rightarrow> bool" where
  "relocationStep ev =
     (case ev of WarnFolderExists \<Rightarrow> True | FolderRenamed n \<Rightarrow> True | NoteInsideFolder \<Rightarrow> True
      | _ \<Rightarrow> False)"

section \<open>Example projects\<close>

definition exManifest :: "string \<Rightarrow> (string \<times> string) list \<Rightarrow> manifest" where
  "exManifest n deps =
     \<lparr>name = Some n, dependencies = Some deps, devDependencies = None, otherFields = []\<rparr>"

definition exPackage :: "string \<Rightarrow> (string \<times> string) list \<Rightarrow> node list \<Rightarrow> entry" where
  "exPackage n deps tree =
     Directory \<lparr>packageJson = Some (Parsed (JObject (exManifest n deps))),
                src = Some tree, indexHtml = None\<rparr>"

definition exProject :: project where
  "exProject =
     \<lparr>rootPackageJson = Some (Parsed (JObject (exManifest ''starter'' []))),
      packages = Some
        [(''api'', exPackage ''@old/api'' [(''@old/ui'', ''1.0.0''), (''react'', ''18'')]
                     [File ''index.ts'' ''import \"@old/ui\"'']),
         (''ui'', exPackage ''@old/ui'' [] [])],
      readme = Some ''# Modern Fullstack Boilerplate''\<rparr>"

definition exEnv :: env where
  "exEnv = \<lparr>target = Some exProject, targetIsCwd = False, siblingExists = False\<rparr>"

text \<open>
A package whose manifest cannot be parsed, between two sound ones.
\<close>

definition exBrokenDir :: pkgdir where
  "exBrokenDir = \<lparr>packageJson = Some Unreadable, src = None, indexHtml = None\<rparr>"

definition exBroken :: project where
  "exBroken =
     \<lparr>rootPackageJson = Some (Parsed (JObject (exManifest ''starter'' []))),
      packages = Some
        [(''api'', exPackage ''@old/api'' [] []),
         (''broken'', Directory exBrokenDir),
         (''web'', exPackage ''@old/web'' [] [])],
      readme = Some ''# Modern Fullstack Boilerplate''\<rparr>"

definition exBrokenEnv :: env where
  "exBrokenEnv = \<lparr>target = Some exBroken, targetIsCwd = False, siblingExists = False\<rparr>"

text \<open>
A package whose manifest has no name, between two sound ones.
\<close>

definition exNamelessManifest :: manifest where
  "exNamelessManifest =
     \<lparr>name = None, dependencies = None, devDependencies = None, otherFields = []\<rparr>"

definition exNamelessDir :: pkgdir where
  "exNamelessDir =
     \<lparr>packageJson = Some (Parsed (JObject exNamelessManifest)), src = None, indexHtml = None\<rparr>"

definition exNameless :: project where
  "exNameless =
     \<lparr>rootPackageJson = Some (Parsed (JObject (exManifest ''starter'' []))),
      packages = Some
        [(''api'', exPackage ''@old/api'' [] []),
         (''tools'', Directory exNamelessDir),
         (''web'', exPackage ''@old/web'' [] [])],
      readme = Some ''# Modern Fullstack Boilerplate''\<rparr>"


definition exSrcDir :: pkgdir where
  "exSrcDir =
     \<lparr>packageJson = Some (Parsed (JObject (exManifest ''@old/api'' []))),
      src = Some
        [File ''index.ts'' ''import \"@old/ui\"'',
         Folder ''lib''
           [File ''util.js'' ''// modern-fullstack-boilerplate @old/ui'',
            File ''plain.ts'' ''export {}'',
            File ''notes.md'' ''@old/ui'']],
      indexHtml = None\<rparr>"

section \<open>Strings\<close>

text \<open>
A template without a dollar sign stands for itself.
\<close>

lemma getSubstitution_plain:
  "CHR ''$'' \<notin> set template \<Longrightarrow> getSubstitution matched pre post template = template"
  by (induction matched pre post template rule: getSubstitution.induct) auto

lemma replace_from_prefix:
  "prefix pat s \<Longrightarrow>
   replace_from pat template seen s =
     seen @ getSubstitution pat seen (drop (length pat) s) template @ drop (length pat) s"
  by (cases s) auto

lemma replace_prefix:
  "prefix pat s \<Longrightarrow> CHR ''$'' \<notin> set template \<Longrightarrow>
   replace s pat template = template @ drop (length pat) s"
  by (simp add: replace_def replace_from_prefix getSubstitution_plain)

lemma replace_token:
  "CHR ''$'' \<notin> set template \<Longrightarrow> replace (pat @ rest) pat template = template @ rest"
  by (simp add: replace_prefix)

text \<open>
Valid names hold neither a dollar sign nor a slash.
\<close>

lemma validChar_not_dollar: "validChar c \<Longrightarrow> c \<noteq> CHR ''$''"
  by (auto simp: validChar_def)

lemma validName_no_dollar: "validName n \<Longrightarrow> CHR ''$'' \<notin> set n"
  by (auto simp: validName_def list_all_iff dest: validChar_not_dollar)

lemma newScopeToken_no_dollar: "validName n \<Longrightarrow> CHR ''$'' \<notin> set (''@'' @ n @ ''/'')"
  by (auto dest: validName_no_dollar)

lemma validChar_not_slash: "validChar c \<Longrightarrow> c \<noteq> CHR ''/''"
  by (auto simp: validChar_def)

lemma validName_no_slash: "validName n \<Longrightarrow> CHR ''/'' \<notin> set n"
  by (auto simp: validName_def list_all_iff dest: validChar_not_slash)

text \<open>
  Two tokens that end in their only \<open>/\<close> and differ are not prefixes of one
  another, nor of a longer key under the other.
\<close>

lemma prefix_snoc_same:
  assumes "prefix (a @ [c]) (b @ [c])" and "c \<notin> set b"
  shows "a = b"
proof -
  from assms(1) obtain z where z: "b @ [c] = a @ [c] @ z"
    by (auto simp: prefix_def)
  show ?thesis
  proof (cases z rule: rev_cases)
    case Nil
    with z show ?thesis by simp
  next
    case (snoc z' x)
    with z have "b = a @ [c] @ z'" by simp
    with assms(2) show ?thesis by simp
  qed
qed

lemma tokens_incomparable:
  assumes "CHR ''/'' \<notin> set sc" and "CHR ''/'' \<notin> set sc'" and "sc \<noteq> sc'"
  shows "\<not> prefix (sc @ ''/'') (sc' @ ''/'' @ rest)"
proof
  assume p: "prefix (sc @ ''/'') (sc' @ ''/'' @ rest)"
  have q: "prefix (sc' @ ''/'') (sc' @ ''/'' @ rest)" by simp
  from p q have "prefix (sc @ ''/'') (sc' @ ''/'') \<or> prefix (sc' @ ''/'') (sc @ ''/'')"
    using prefix_same_cases by blast
  with assms show False
    using prefix_snoc_same [of sc "CHR ''/''" sc'] prefix_snoc_same [of sc' "CHR ''/''" sc]
    by auto
qed

text \<open>
\<open>split\<close> on a single character: the first piece.
\<close>

lemma split_from_char:
  "\<exists>ps. split_from [c] cur s = (cur @ takeWhile (\<lambda>x. x \<noteq> c) s) # ps"
proof (induction s arbitrary: cur)
  case Nil
  then show ?case by simp
next
  case (Cons a s)
  show ?case
  proof (cases "a = c")
    case True
    then show ?thesis by simp
  next
    case False
    with Cons [of "cur @ [a]"] show ?thesis by simp
  qed
qed

lemma split_char_hd:
  "\<exists>ps. split s [c] = takeWhile (\<lambda>x. x \<noteq> c) s # ps"
  using split_from_char [of c "[]" s] by (simp add: split_def)

text \<open>
  \<open>split\<close> followed by \<open>join\<close>, and the global regex replacement with a
  plain template, both replace every occurrence; joining with the separator
  itself gives the text back.
\<close>

lemma split_from_nonempty: "split_from sep cur s \<noteq> []"
  by (induction sep cur s rule: split_from.induct) auto

lemma join_Cons: "ps \<noteq> [] \<Longrightarrow> join sep (p # ps) = p @ sep @ join sep ps"
  by (cases ps) auto

lemma join_split_from:
  "join rep (split_from sep cur s) = cur @ substituteAll sep rep s"
  by (induction sep cur s rule: split_from.induct)
     (auto simp: join_Cons split_from_nonempty)

lemma join_split:
  "sep \<noteq> [] \<Longrightarrow> join rep (split s sep) = substituteAll sep rep s"
  by (simp add: split_def join_split_from)

lemma replaceAll_from_plain:
  "CHR ''$'' \<notin> set template \<Longrightarrow>
   replaceAll_from pat template seen s = substituteAll pat template s"
  by (induction pat template seen s rule: replaceAll_from.induct)
     (auto simp: getSubstitution_plain)

lemma replaceAll_plain:
  "CHR ''$'' \<notin> set template \<Longrightarrow> replaceAll s pat template = substituteAll pat template s"
  by (simp add: replaceAll_def replaceAll_from_plain)

lemma substituteAll_absent:
  "\<not> js_includes s pat \<Longrightarrow> substituteAll pat rep s = s"
  by (induction pat rep s rule: substituteAll.induct) auto

lemma substituteAll_same_aux: "rep = pat \<Longrightarrow> substituteAll pat rep s = s"
  by (induction pat rep s rule: substituteAll.induct) (auto simp: prefix_def)

lemma substituteAll_same: "substituteAll pat pat s = s"
  by (simp add: substituteAll_same_aux)

lemma join_split_same: "sep \<noteq> [] \<Longrightarrow> join sep (split s sep) = s"
  by (simp add: join_split substituteAll_same)

section \<open>Dependency rekeying\<close>

text \<open>
With the old token as the new token, a round of the loop deletes the key.
\<close>

lemma rekeyStep_same:
  assumes "CHR ''$'' \<notin> set tok"
  shows "rekeyStep tok tok dep deps = (if prefix tok dep then AList.delete dep deps else deps)"
proof (cases "prefix tok dep")
  case False
  then show ?thesis by (simp add: rekeyStep_def)
next
  case True
  then have r: "replace dep tok tok = dep"
    using assms by (auto simp: replace_prefix prefix_def)
  show ?thesis
  proof (cases "map_of deps dep")
    case None
    with True r show ?thesis by (simp add: rekeyStep_def AList.delete_idem)
  next
    case (Some v)
    with True r show ?thesis by (simp add: rekeyStep_def AList.update_triv)
  qed
qed

lemma fold_rekeyStep_same:
  assumes "CHR ''$'' \<notin> set tok"
  shows "fold (rekeyStep tok tok) ks deps =
         filter (\<lambda>(k, v). \<not> (prefix tok k \<and> k \<in> set ks)) deps"
proof (induction ks arbitrary: deps)
  case Nil
  then show ?case by simp
next
  case (Cons k ks)
  have "fold (rekeyStep tok tok) (k # ks) deps =
        fold (rekeyStep tok tok) ks (if prefix tok k then AList.delete k deps else deps)"
    by (simp add: rekeyStep_same [OF assms])
  also have "\<dots> = filter (\<lambda>(k', v). \<not> (prefix tok k' \<and> k' \<in> set (k # ks))) deps"
    by (auto simp: Cons.IH AList.delete_eq intro!: filter_cong)
  finally show ?case .
qed

lemma rekey_same:
  assumes "CHR ''$'' \<notin> set tok"
  shows "rekey tok tok deps = filter (\<lambda>(k, v). \<not> prefix tok k) deps"
  unfolding rekey_def fold_rekeyStep_same [OF assms]
  by (rule filter_cong) (auto simp: rev_image_eqI)

text \<open>
One round of the loop, read as a map, and the loop as a whole.
\<close>

lemma map_of_rekeyStep:
  assumes "CHR ''$'' \<notin> set new" and "prefix old dep"
  shows "map_of (rekeyStep old new dep deps) =
         ((map_of deps)(new @ drop (length old) dep := map_of deps dep))(dep := None)"
proof (cases "map_of deps dep")
  case None
  with assms show ?thesis
    by (simp add: rekeyStep_def replace_prefix AList.delete_conv')
next
  case (Some v)
  with assms show ?thesis
    by (simp add: rekeyStep_def replace_prefix AList.delete_conv' AList.update_conv')
qed

lemma rekeyStep_other: "\<not> prefix old dep \<Longrightarrow> rekeyStep old new dep deps = deps"
  by (simp add: rekeyStep_def)

lemma map_of_fold_rekeyStep:
  assumes d: "CHR ''$'' \<notin> set new"
    and inc: "\<And>rest. \<not> prefix old (new @ rest)"
    and inc': "\<And>rest. \<not> prefix new (old @ rest)"
  shows "distinct ks \<Longrightarrow>
     map_of (fold (rekeyStep old new) ks deps) k =
       (if prefix old k \<and> k \<in> set ks then None
        else if prefix new k \<and> old @ drop (length new) k \<in> set ks
             then map_of deps (old @ drop (length new) k)
        else map_of deps k)"
proof (induction ks arbitrary: deps)
  case Nil
  then show ?case by simp
next
  case (Cons dep ks)
  then have dk: "dep \<notin> set ks" and dist: "distinct ks" by simp_all
  define M where "M = map_of (rekeyStep old new dep deps)"
  define R where "R = old @ drop (length new) k"
  have ih: "map_of (fold (rekeyStep old new) (dep # ks) deps) k =
       (if prefix old k \<and> k \<in> set ks then None
        else if prefix new k \<and> R \<in> set ks then M R else M k)"
    using Cons.IH [OF dist, of "rekeyStep old new dep deps"] by (simp add: M_def R_def)
  have pR: "prefix old R" by (simp add: R_def)
  show ?case
  proof (cases "prefix old dep")
    case False
    with pR have "R \<noteq> dep" by auto
    moreover from False have "M = map_of deps" by (simp add: M_def rekeyStep_other)
    ultimately show ?thesis using False ih by (auto simp: R_def)
  next
    case True
    define N where "N = new @ drop (length old) dep"
    have m: "M = ((map_of deps)(N := map_of deps dep))(dep := None)"
      unfolding M_def N_def by (rule map_of_rekeyStep [OF d True])
    have dep: "dep = old @ drop (length old) dep"
      using True by (auto simp: prefix_def)
    have ne: "N \<noteq> dep" using inc [of "drop (length old) dep"] True by (auto simp: N_def)
    have nd: "\<not> prefix new dep" using inc' [of "drop (length old) dep"] dep by simp
    have nN: "\<not> prefix old N" using inc by (simp add: N_def)
    have RN: "R \<noteq> N" using pR nN by auto
    have Rdep: "prefix new k \<Longrightarrow> R = dep \<longleftrightarrow> k = N"
    proof -
      assume "prefix new k"
      then have k: "k = new @ drop (length new) k" by (auto simp: prefix_def)
      show ?thesis
      proof
        assume "R = dep"
        then have "old @ drop (length new) k = old @ drop (length old) dep"
          using dep by (simp add: R_def)
        then have "drop (length new) k = drop (length old) dep" by simp
        with k show "k = N" by (simp add: N_def)
      next
        assume "k = N"
        then have "drop (length new) k = drop (length old) dep" by (simp add: N_def)
        with dep show "R = dep" by (simp add: R_def)
      qed
    qed
    have kN: "k = N \<Longrightarrow> prefix new k" by (simp add: N_def)
    show ?thesis
    proof (cases "prefix old k")
      case ok: True
      then have nk: "\<not> prefix new k" using inc' by (auto simp: prefix_def)
      with kN have "k \<noteq> N" by auto
      with ok nk nd show ?thesis
        unfolding ih m by (fold R_def) simp
    next
      case nok: False
      then have kd: "k \<noteq> dep" using True by auto
      show ?thesis
      proof (cases "prefix new k")
        case False
        with kN have "k \<noteq> N" by auto
        with nok False kd show ?thesis
          unfolding ih m by (fold R_def) simp
      next
        case pn: True
        show ?thesis
        proof (cases "k = N")
          case True
          with Rdep [OF pn] have "R = dep" by simp
          with True nok pn dk kd ne show ?thesis
            unfolding ih m by (fold R_def) simp
        next
          case False
          with Rdep [OF pn] have "R \<noteq> dep" by simp
          with False nok pn kd RN show ?thesis
            unfolding ih m by (fold R_def) simp
        qed
      qed
    qed
  qed
qed

lemma map_of_rekey:
  assumes "CHR ''$'' \<notin> set new"
    and "\<And>rest. \<not> prefix old (new @ rest)"
    and "\<And>rest. \<not> prefix new (old @ rest)"
    and "distinct (map fst deps)"
  shows "map_of (rekey old new deps) k =
       (if prefix old k then None
        else if prefix new k \<and> map_of deps (old @ drop (length new) k) \<noteq> None
             then map_of deps (old @ drop (length new) k)
        else map_of deps k)"
proof -
  have in_keys: "\<And>x. x \<in> set (map fst deps) \<longleftrightarrow> map_of deps x \<noteq> None"
    by (simp add: map_of_eq_None_iff)
  have both: "\<not> (prefix old k \<and> prefix new k)"
  proof
    assume a: "prefix old k \<and> prefix new k"
    then obtain r where "k = old @ r" by (auto simp: prefix_def)
    with a assms(3) [of r] show False by simp
  qed
  have "prefix old k \<Longrightarrow> k \<notin> set (map fst deps) \<Longrightarrow> map_of deps k = None"
    by (simp add: map_of_eq_None_iff)
  with both show ?thesis
    unfolding rekey_def map_of_fold_rekeyStep [OF assms(1-3) assms(4)] in_keys
    by auto
qed


lemma rekeyed_rekey:
  assumes "CHR ''$'' \<notin> set new"
    and i1: "\<And>rest. \<not> prefix old (new @ rest)"
    and i2: "\<And>rest. \<not> prefix new (old @ rest)"
    and "distinct (map fst deps)"
  shows "rekeyed old new deps (rekey old new deps)"
  unfolding rekeyed_def
proof (intro conjI allI impI)
  note m = map_of_rekey [OF assms]
  fix rest v assume v: "map_of deps (old @ rest) = Some v"
  with i1 [of rest] show "map_of (rekey old new deps) (new @ rest) = Some v"
    unfolding m by simp
  show "map_of (rekey old new deps) (old @ rest) = None"
    unfolding m by simp
next
  note m = map_of_rekey [OF assms]
  fix k
  assume k: "\<not> prefix old k \<and> (\<forall>rest. k = new @ rest \<longrightarrow> map_of deps (old @ rest) = None)"
  have "map_of deps (old @ drop (length new) k) = None" if "prefix new k"
  proof -
    from that have "k = new @ drop (length new) k" by (auto simp: prefix_def)
    with k show ?thesis by blast
  qed
  with k show "map_of (rekey old new deps) k = map_of deps k"
    unfolding m by auto
qed

lemma rekey_rekeyed:
  assumes "validName newName" and "CHR ''/'' \<notin> set sc" and "sc \<noteq> ''@'' @ newName"
    and "distinct (map fst deps)"
  shows "rekeyed (sc @ ''/'') (''@'' @ newName @ ''/'') deps
           (rekey (sc @ ''/'') (''@'' @ newName @ ''/'') deps)"
proof (rule rekeyed_rekey)
  show "CHR ''$'' \<notin> set (''@'' @ newName @ ''/'')"
    by (rule newScopeToken_no_dollar [OF assms(1)])
  have s: "CHR ''/'' \<notin> set (''@'' @ newName)"
    using validName_no_slash [OF assms(1)] by simp
  show "\<not> prefix (sc @ ''/'') ((''@'' @ newName @ ''/'') @ rest)" for rest
    using tokens_incomparable [OF assms(2) s assms(3), of rest] by simp
  show "\<not> prefix (''@'' @ newName @ ''/'') ((sc @ ''/'') @ rest)" for rest
    using tokens_incomparable [OF s assms(2) assms(3) [symmetric], of rest] by simp
  show "distinct (map fst deps)" by (rule assms(4))
qed

section \<open>Scope detection\<close>

lemma detectScope_passedOver:
  "list_all (\<lambda>(pkg, e). passedOver e) ps \<Longrightarrow> detectScope (ps @ rest) = detectScope rest"
proof (induction ps)
  case Nil
  then show ?case by simp
next
  case (Cons p ps)
  obtain pkg e where p: "p = (pkg, e)" by (cases p)
  from Cons.prems p have e: "passedOver e" and ps: "list_all (\<lambda>(pkg, e). passedOver e) ps"
    by simp_all
  from e have "detectScope ((pkg, e) # ps @ rest) = detectScope (ps @ rest)"
    by (cases e)
       (auto simp: passedOver_def readJson_def nameOf_def
             split: option.splits json_file.splits json.splits)
  with Cons.IH [OF ps] p show ?case by simp
qed

lemma detectScope_match:
  assumes "packageJson d = Some (Parsed (JObject m))" and "name m = Some n"
    and "prefix ''@'' n" and "js_includes n ''/''"
  shows "detectScope ((pkg, Directory d) # rest) = Inr (takeWhile (\<lambda>c. c \<noteq> CHR ''/'') n)"
proof -
  obtain ps where "split n ''/'' = takeWhile (\<lambda>c. c \<noteq> CHR ''/'') n # ps"
    using split_char_hd [of n "CHR ''/''"] by blast
  with assms show ?thesis by (simp add: readJson_def nameOf_def)
qed

lemma detectScope_no_slash: "detectScope ps = Inr sc \<Longrightarrow> CHR ''/'' \<notin> set sc"
proof (induction ps rule: detectScope.induct)
  case 1
  then show ?case by auto
next
  case (2 pkg rest)
  then show ?case by simp
next
  case (3 pkg d rest)
  have t: "\<And>n p ps. split n ''/'' = p # ps \<Longrightarrow> CHR ''/'' \<notin> set p"
  proof -
    fix n p ps assume "split n ''/'' = p # ps"
    with split_char_hd [of n "CHR ''/''"] have "p = takeWhile (\<lambda>x. x \<noteq> CHR ''/'') n" by auto
    then show "CHR ''/'' \<notin> set p" by (auto dest: set_takeWhileD)
  qed
  from 3 show ?case
    by (auto split: option.splits sum.splits if_splits list.splits dest: t)
qed

lemma currentScope_no_slash: "currentScope fs = Inr sc \<Longrightarrow> CHR ''/'' \<notin> set sc"
  by (auto simp: currentScope_def split: option.splits dest: detectScope_no_slash)

lemma detectScope_updatable:
  "list_all (\<lambda>(pkg, e). updatable e) ps \<Longrightarrow> \<exists>sc. detectScope ps = Inr sc"
proof (induction ps rule: detectScope.induct)
  case 1
  then show ?case by simp
next
  case (2 pkg rest)
  then show ?case by simp
next
  case (3 pkg d rest)
  have "\<And>n. \<exists>p ps. split n ''/'' = p # ps"
    using split_char_hd [of _ "CHR ''/''"] by blast
  then have s: "\<And>n. split n ''/'' \<noteq> []" by (metis list.distinct(1))
  from 3 show ?case
    by (auto simp: updatable_def readJson_def nameOf_def s
             split: option.splits json_file.splits json.splits list.splits)
qed

section \<open>The loop over the packages\<close>

lemma updatable_updateEntry:
  "updatable e \<Longrightarrow> updateEntry old new nn e = Inr (updatedEntry old new nn e)"
  by (cases e)
     (auto simp: updatable_def updatedEntry_def updateEntry_def updateManifest_def readJson_def
           split: option.splits json_file.splits json.splits)

lemma not_updatable_updateEntry:
  "\<not> updatable e \<Longrightarrow> \<exists>err. updateEntry old new nn e = Inl err"
  by (cases e)
     (auto simp: updatable_def updateEntry_def updateManifest_def readJson_def
           split: option.splits json_file.splits json.splits)



lemma updatePackages_append:
  "list_all (\<lambda>(pkg, e). updatable e) earlier \<Longrightarrow>
   updatePackages old new nn (earlier @ rest) =
     (fst (updatePackages old new nn rest),
      map (\<lambda>(pkg, e). (pkg, updatedEntry old new nn e)) earlier
        @ snd (updatePackages old new nn rest))"
proof (induction earlier)
  case Nil
  then show ?case by simp
next
  case (Cons p earlier)
  obtain pkg e where p: "p = (pkg, e)" by (cases p)
  with Cons.prems have "updatable e" and "list_all (\<lambda>(pkg, e). updatable e) earlier"
    by simp_all
  with Cons.IH p show ?case
    by (simp add: updatable_updateEntry split: prod.splits)
qed

lemma updatePackages_all:
  "list_all (\<lambda>(pkg, e). updatable e) ps \<Longrightarrow>
   updatePackages old new nn ps =
     (Returned, map (\<lambda>(pkg, e). (pkg, updatedEntry old new nn e)) ps)"
  using updatePackages_append [of ps old new nn "[]"] by simp

lemma updatePackages_stop:
  "list_all (\<lambda>(pkg, e). updatable e) earlier \<Longrightarrow> updateEntry old new nn e = Inl err \<Longrightarrow>
   updatePackages old new nn (earlier @ (pkg, e) # later) =
     (Threw err, map (\<lambda>(pkg, e). (pkg, updatedEntry old new nn e)) earlier @ (pkg, e) # later)"
  by (simp add: updatePackages_append)

lemma updatePackages_throws:
  "(pkg, e) \<in> set ps \<Longrightarrow> \<not> updatable e \<Longrightarrow> \<exists>err. fst (updatePackages old new nn ps) = Threw err"
proof (induction ps)
  case Nil
  then show ?case by simp
next
  case (Cons p ps)
  obtain pkg' e' where p: "p = (pkg', e')" by (cases p)
  show ?case
  proof (cases "updateEntry old new nn e'")
    case (Inl err)
    with p show ?thesis by simp
  next
    case (Inr e'')
    then have "updatable e'"
      using not_updatable_updateEntry [of e' old new nn] by auto
    with Cons.prems p have "(pkg, e) \<in> set ps" by auto
    from Cons.IH [OF this Cons.prems(2)] p Inr show ?thesis
      by (auto split: prod.splits)
  qed
qed

lemma updatePackages_rest_unchanged:
  "\<not> updatable e \<Longrightarrow>
   \<exists>earlier'. snd (updatePackages old new nn (earlier @ (pkg, e) # later))
                 = earlier' @ (pkg, e) # later \<and>
              map fst earlier' = map fst earlier"
proof (induction earlier)
  case Nil
  with not_updatable_updateEntry [of e old new nn] show ?case by auto
next
  case (Cons p earlier)
  obtain pkg' e' where p: "p = (pkg', e')" by (cases p)
  show ?case
  proof (cases "updateEntry old new nn e'")
    case (Inl err)
    with p have "snd (updatePackages old new nn ((p # earlier) @ (pkg, e) # later))
        = (p # earlier) @ (pkg, e) # later"
      by simp
    then show ?thesis by blast
  next
    case (Inr e'')
    from Cons.IH [OF Cons.prems] obtain earlier' where
      e: "snd (updatePackages old new nn (earlier @ (pkg, e) # later)) = earlier' @ (pkg, e) # later"
      and n: "map fst earlier' = map fst earlier"
      by blast
    from e p Inr have "snd (updatePackages old new nn ((p # earlier) @ (pkg, e) # later))
        = ((pkg', e'') # earlier') @ (pkg, e) # later"
      by (simp add: case_prod_beta)
    moreover from n p have "map fst ((pkg', e'') # earlier') = map fst (p # earlier)" by simp
    ultimately show ?thesis by blast
  qed
qed

text \<open>
What the loop and the documentation step leave alone.
\<close>

lemma updateEntry_indexHtml:
  "updateEntry old new nn e = Inr e' \<Longrightarrow> entryIndexHtml e' = entryIndexHtml e"
  by (cases e)
     (auto simp: updateEntry_def entryIndexHtml_def split: option.splits sum.splits)

lemma updatePackages_indexHtml:
  "(case map_of (snd (updatePackages old new nn ps)) pkg of None \<Rightarrow> None
    | Some e \<Rightarrow> entryIndexHtml e)
   = (case map_of ps pkg of None \<Rightarrow> None | Some e \<Rightarrow> entryIndexHtml e)"
proof (induction ps)
  case Nil
  then show ?case by simp
next
  case (Cons p ps)
  obtain pkg' e' where p: "p = (pkg', e')" by (cases p)
  show ?case
  proof (cases "updateEntry old new nn e'")
    case (Inl err)
    with p show ?thesis by simp
  next
    case (Inr e'')
    with Cons.IH p updateEntry_indexHtml [OF Inr] show ?thesis
      by (simp add: case_prod_beta)
  qed
qed

lemma updateIndexHtml_manifest:
  "(case map_of (updateIndexHtml nn ps) pkg of None \<Rightarrow> None | Some e \<Rightarrow> entryManifest e)
   = (case map_of ps pkg of None \<Rightarrow> None | Some e \<Rightarrow> entryManifest e)"
  by (induction ps) (auto simp: entryManifest_def split: entry.splits)

lemma map_of_updated:
  "map_of (map (\<lambda>(pkg, e). (pkg, f e)) ps) pkg = map_option f (map_of ps pkg)"
  by (induction ps) auto

lemma entryManifest_updatedEntry:
  assumes "entryManifest e = Some m" and "name m = Some n"
  shows "entryManifest (updatedEntry old new nn e) =
         Some (m\<lparr>name := Some (if prefix old n then replace n old new else n),
                  dependencies := map_option (rekey old new) (dependencies m),
                  devDependencies := map_option (rekey old new) (devDependencies m)\<rparr>)"
  using assms
  by (cases e)
     (auto simp: entryManifest_def updatedEntry_def updateEntry_def updateManifest_def readJson_def
           split: option.splits json_file.splits json.splits)

section \<open>Source files\<close>

lemma finalText_eq:
  assumes "CHR ''$'' \<notin> set newName" and "old \<noteq> []"
  shows "finalText old new newName content =
         substituteAll boilerplate newName (substituteAll old new content)"
  using assms
  by (simp add: finalText_def sourceWrites_def join_split replaceAll_plain substituteAll_absent
        Let_def)

lemma sourceWrites_none:
  "\<not> js_includes content old \<Longrightarrow> \<not> js_includes content boilerplate \<Longrightarrow>
   sourceWrites old new newName content = []"
  by (simp add: sourceWrites_def)

text \<open>
Reading after writing, for one write, for the writes of one file, for the loop.
\<close>

lemma writeFile_root: "writeFile t [] x = t"
proof (cases t)
  case Nil
  then show ?thesis by simp
next
  case (Cons a ns)
  then show ?thesis by (cases a) simp_all
qed

lemma readFile_root: "readFile t [] = None"
proof (cases t)
  case Nil
  then show ?thesis by simp
next
  case (Cons a ns)
  then show ?thesis by (cases a) simp_all
qed

lemma readFile_writeFile:
  "readFile (writeFile t p x) q =
     (if q = p \<and> readFile t p \<noteq> None then Some x else readFile t q)"
proof (induction t p x arbitrary: q rule: writeFile.induct)
  case (1 p x)
  then show ?case by simp
next
  case (2 n c ns p x)
  then show ?case by (cases p; cases q) auto
next
  case (3 n cs ns p x)
  then show ?case by (cases p; cases q) (auto simp: readFile_root)
qed

lemma readFile_fold_writeFile:
  "readFile (fold (\<lambda>x t. writeFile t p x) ws t) q =
     (if q = p \<and> ws \<noteq> [] \<and> readFile t p \<noteq> None then Some (last ws) else readFile t q)"
  by (induction ws arbitrary: t) (auto simp: readFile_writeFile)

lemma readFile_rewriteSourceFile:
  "readFile (rewriteSourceFile old new nn f t) q =
     (if q = f \<and> isSourceFile f then map_option (finalText old new nn) (readFile t f)
      else readFile t q)"
  by (auto simp: rewriteSourceFile_def readFile_fold_writeFile finalText_def
           split: option.splits)

lemma readFile_fold_rewriteSourceFile:
  "distinct files \<Longrightarrow>
   readFile (fold (rewriteSourceFile old new nn) files t) q =
     (if q \<in> set files \<and> isSourceFile q then map_option (finalText old new nn) (readFile t q)
      else readFile t q)"
  by (induction files arbitrary: t) (auto simp: readFile_rewriteSourceFile)

text \<open>
The lister finds every file, and each only once.
\<close>

lemma readFile_in_getFiles:
  "readFile t p = Some c \<Longrightarrow> dir @ p \<in> set (getFiles dir t)"
proof (induction t p arbitrary: dir rule: readFile.induct)
  case (1 p)
  then show ?case by simp
next
  case (2 n c' ns p)
  then show ?case by (cases p) (auto split: if_splits)
next
  case (3 n cs ns p)
  show ?case
  proof (cases p)
    case Nil
    with 3 show ?thesis by simp
  next
    case (Cons q qs)
    show ?thesis
    proof (cases "q = n")
      case True
      with 3(1) [OF Cons True, of "dir @ [n]"] 3(3) Cons show ?thesis by simp
    next
      case False
      with 3(2) [OF Cons False, of dir] 3(3) Cons show ?thesis by simp
    qed
  qed
qed

lemma getFiles_shape:
  "x \<in> set (getFiles dir t) \<Longrightarrow> \<exists>n rest. x = dir @ n # rest \<and> n \<in> set (map nodeName t)"
proof (induction dir t rule: getFiles.induct)
  case (1 dir)
  then show ?case by simp
next
  case (2 dir n c ns)
  then show ?case by auto
next
  case (3 dir n cs ns)
  from 3(3) consider "x \<in> set (getFiles (dir @ [n]) cs)" | "x \<in> set (getFiles dir ns)"
    by auto
  then show ?case
  proof cases
    case 1
    from 3(1) [OF 1] obtain n' rest where "x = (dir @ [n]) @ n' # rest" by blast
    then have "x = dir @ n # (n' # rest)" by simp
    then show ?thesis by auto
  next
    case 2
    from 3(2) [OF 2] show ?thesis by auto
  qed
qed

lemma getFiles_distinct: "wfTree t \<Longrightarrow> distinct (getFiles dir t)"
proof (induction dir t rule: getFiles.induct)
  case (1 dir)
  then show ?case by simp
next
  case (2 dir n c ns)
  have "dir @ [n] \<notin> set (getFiles dir ns)"
  proof
    assume "dir @ [n] \<in> set (getFiles dir ns)"
    from getFiles_shape [OF this] 2(2) show False by auto
  qed
  with 2 show ?case by simp
next
  case (3 dir n cs ns)
  have "set (getFiles (dir @ [n]) cs) \<inter> set (getFiles dir ns) = {}"
  proof (rule ccontr)
    assume "set (getFiles (dir @ [n]) cs) \<inter> set (getFiles dir ns) \<noteq> {}"
    then obtain x where a: "x \<in> set (getFiles (dir @ [n]) cs)" and b: "x \<in> set (getFiles dir ns)"
      by blast
    from getFiles_shape [OF a] obtain n' rest where "x = (dir @ [n]) @ n' # rest" by blast
    then have x: "x = dir @ n # n' # rest" by simp
    from getFiles_shape [OF b] obtain m rest' where "x = dir @ m # rest'"
      and m: "m \<in> set (map nodeName ns)" by blast
    with x have "m = n" by simp
    with m 3(3) show False by simp
  qed
  with 3 show ?case by simp
qed

lemma readFile_rewriteSources:
  assumes "wfTree tree" and "readFile tree file = Some content"
  shows "readFile (rewriteSources old new nn tree) file =
         Some (if isSourceFile file then finalText old new nn content else content)"
proof -
  have "file \<in> set (getFiles [] tree)"
    using readFile_in_getFiles [OF assms(2), of "[]"] by simp
  with getFiles_distinct [OF assms(1), of "[]"] assms(2) show ?thesis
    by (simp add: rewriteSources_def readFile_fold_rewriteSourceFile)
qed

section \<open>The whole call\<close>

lemma renameProject_unfold:
  assumes "packages fs = Some ps" and "currentScope fs = Inr sc"
    and "updateRoot newName (rootPackageJson fs) = Inr root'"
  shows "renameProject fs newName =
     (case updatePackages (sc @ ''/'') (''@'' @ newName @ ''/'') newName ps of
        (Threw e, ps') \<Rightarrow> (Threw e, fs\<lparr>rootPackageJson := root', packages := Some ps'\<rparr>)
      | (Returned, ps') \<Rightarrow>
          (Returned,
           updateExtraFiles newName (fs\<lparr>rootPackageJson := root', packages := Some ps'\<rparr>)))"
  using assms by (simp add: renameProject_def Let_def)

lemma renameProject_returns:
  assumes "packages fs = Some ps" and "list_all (\<lambda>(pkg, e). updatable e) ps"
    and "currentScope fs = Inr sc" and "updateRoot newName (rootPackageJson fs) = Inr root'"
  shows "renameProject fs newName =
     (Returned,
      updateExtraFiles newName
        (fs\<lparr>rootPackageJson := root', packages := Some (updatedEntries sc newName ps)\<rparr>))"
  unfolding renameProject_unfold [OF assms(1,3,4)]
  using updatePackages_all [OF assms(2), of "sc @ ''/''" "''@'' @ newName @ ''/''" newName]
  by (simp add: updatedEntries_def)

lemma renameProject_stops:
  assumes "packages fs = Some (earlier @ (pkg, e) # later)"
    and "list_all (\<lambda>(pkg, e). updatable e) earlier"
    and "updateEntry (sc @ ''/'') (''@'' @ newName @ ''/'') newName e = Inl err"
    and "currentScope fs = Inr sc" and "updateRoot newName (rootPackageJson fs) = Inr root'"
  shows "renameProject fs newName =
     (Threw err,
      fs\<lparr>rootPackageJson := root',
         packages := Some (updatedEntries sc newName earlier @ (pkg, e) # later)\<rparr>)"
  unfolding renameProject_unfold [OF assms(1,4,5)]
  using updatePackages_stop [OF assms(2,3), of pkg later]
  by (simp add: updatedEntries_def)

lemma renameProject_cases:
  assumes "packages fs = Some ps"
  obtains (scope) err where "renameProject fs newName = (Threw err, fs)"
  | (loop) sc root' where "currentScope fs = Inr sc"
      and "renameProject fs newName =
        (case updatePackages (sc @ ''/'') (''@'' @ newName @ ''/'') newName ps of
           (Threw e, ps') \<Rightarrow> (Threw e, fs\<lparr>rootPackageJson := root', packages := Some ps'\<rparr>)
         | (Returned, ps') \<Rightarrow>
             (Returned,
              updateExtraFiles newName (fs\<lparr>rootPackageJson := root', packages := Some ps'\<rparr>)))"
proof (cases "currentScope fs")
  case (Inl err)
  then have "renameProject fs newName = (Threw err, fs)" by (simp add: renameProject_def)
  then show ?thesis by (rule scope)
next
  case sc: (Inr sc)
  show ?thesis
  proof (cases "updateRoot newName (rootPackageJson fs)")
    case (Inl err)
    with sc have "renameProject fs newName = (Threw err, fs)" by (simp add: renameProject_def)
    then show ?thesis by (rule scope)
  next
    case (Inr root')
    from sc renameProject_unfold [OF assms sc Inr] show ?thesis by (rule loop)
  qed
qed

lemma renameProject_not_updatable:
  assumes ps: "packages fs = Some (earlier @ (pkg, e) # later)" and e: "\<not> updatable e"
    and r: "renameProject fs newName = (r, fs')"
  shows "(\<exists>err. r = Threw err) \<and> documentation fs' = documentation fs \<and>
         (\<exists>earlier'. packages fs' = Some (earlier' @ (pkg, e) # later) \<and>
                     map fst earlier' = map fst earlier)"
proof (rule renameProject_cases [OF ps, of newName])
  fix err
  assume "renameProject fs newName = (Threw err, fs)"
  with r ps show ?thesis by auto
next
  fix sc root'
  assume loop: "currentScope fs = Inr sc"
      "renameProject fs newName =
        (case updatePackages (sc @ ''/'') (''@'' @ newName @ ''/'') newName
                (earlier @ (pkg, e) # later) of
           (Threw e, ps') \<Rightarrow> (Threw e, fs\<lparr>rootPackageJson := root', packages := Some ps'\<rparr>)
         | (Returned, ps') \<Rightarrow>
             (Returned,
              updateExtraFiles newName (fs\<lparr>rootPackageJson := root', packages := Some ps'\<rparr>)))"
  let ?u = "updatePackages (sc @ ''/'') (''@'' @ newName @ ''/'') newName
              (earlier @ (pkg, e) # later)"
  have "(pkg, e) \<in> set (earlier @ (pkg, e) # later)" by simp
  from updatePackages_throws [OF this e]
  obtain err where t: "fst ?u = Threw err" by blast
  obtain earlier' where s: "snd ?u = earlier' @ (pkg, e) # later"
    and n: "map fst earlier' = map fst earlier"
    using updatePackages_rest_unchanged [OF e] by blast
  from t have u: "?u = (Threw err, snd ?u)" by (metis prod.collapse)
  from loop(2) r have fs': "r = Threw err \<and> fs' = fs\<lparr>rootPackageJson := root', packages := Some (snd ?u)\<rparr>"
    by (subst (asm) u) simp
  have "documentation fs' = documentation fs"
    using fs' ps updatePackages_indexHtml [of "sc @ ''/''" "''@'' @ newName @ ''/''" newName
        "earlier @ (pkg, e) # later" "''frontend''"]
    by (simp add: documentation_def)
  with fs' s n show ?thesis by auto
qed

lemma packageManifest_returned:
  "packageManifest
     (updateExtraFiles nn (fs\<lparr>rootPackageJson := root', packages := Some (updatedEntries sc nn ps)\<rparr>))
     pkg =
   (case map_of ps pkg of
      None \<Rightarrow> None
    | Some e \<Rightarrow> entryManifest (updatedEntry (sc @ ''/'') (''@'' @ nn @ ''/'') nn e))"
  by (simp add: packageManifest_def updateExtraFiles_def updateIndexHtml_manifest
        updatedEntries_def map_of_updated split: option.splits)

lemma updateRoot_object:
  "updateRoot nn (Some (Parsed (JObject r))) = Inr (Some (Parsed (JObject (r\<lparr>name := Some nn\<rparr>))))"
  by (simp add: updateRoot_def readJson_def)

section \<open>The claims\<close>

subsection \<open>C1: scoped package names and the root name\<close>

text \<open>
  Claim C1.  In a project whose manifests under \<open>packages/\<close> can all be read
  and carry a string name, and whose root manifest is an object, renaming to a
  valid name returns; every package whose manifest name is the detected scope,
  \<open>/\<close> and a rest is then named \<open>@newName/\<close> and the same rest, and the
  root manifest's name is \<open>newName\<close>, whatever it was.
\<close>

theorem rename_scoped_packages_and_root:
  assumes "validName newName" and "packages fs = Some ps"
    and "list_all (\<lambda>(pkg, e). updatable e) ps"
    and "rootPackageJson fs = Some (Parsed (JObject r))"
    and "currentScope fs = Inr oldScope"
  shows "\<exists>fs'. renameProject fs newName = (Returned, fs') \<and>
           rootPackageJson fs' = Some (Parsed (JObject (r\<lparr>name := Some newName\<rparr>))) \<and>
           (\<forall>pkg m rest.
              packageManifest fs pkg = Some m \<and> name m = Some (oldScope @ ''/'' @ rest) \<longrightarrow>
              (\<exists>m'. packageManifest fs' pkg = Some m' \<and>
                    name m' = Some (''@'' @ newName @ ''/'' @ rest)))"
proof -
  let ?root = "Some (Parsed (JObject (r\<lparr>name := Some newName\<rparr>)))"
  let ?fs = "updateExtraFiles newName
        (fs\<lparr>rootPackageJson := ?root, packages := Some (updatedEntries oldScope newName ps)\<rparr>)"
  have root: "updateRoot newName (rootPackageJson fs) = Inr ?root"
    by (simp add: assms(4) updateRoot_object)
  have ret: "renameProject fs newName = (Returned, ?fs)"
    by (rule renameProject_returns [OF assms(2,3,5) root])
  have r: "rootPackageJson ?fs = ?root"
    by (simp add: updateExtraFiles_def)
  have d: "CHR ''$'' \<notin> set (''@'' @ newName @ ''/'')"
    by (rule newScopeToken_no_dollar [OF assms(1)])
  have p: "\<exists>m'. packageManifest ?fs pkg = Some m' \<and> name m' = Some (''@'' @ newName @ ''/'' @ rest)"
    if m: "packageManifest fs pkg = Some m" and n: "name m = Some (oldScope @ ''/'' @ rest)"
    for pkg m rest
  proof -
    from m assms(2) obtain e where e: "map_of ps pkg = Some e" "entryManifest e = Some m"
      by (auto simp: packageManifest_def split: option.splits)
    have "replace ((oldScope @ ''/'') @ rest) (oldScope @ ''/'') (''@'' @ newName @ ''/'')
          = (''@'' @ newName @ ''/'') @ rest"
      by (rule replace_token [OF d])
    then have "name (m\<lparr>name := Some (if prefix (oldScope @ ''/'') (oldScope @ ''/'' @ rest)
                 then replace (oldScope @ ''/'' @ rest) (oldScope @ ''/'') (''@'' @ newName @ ''/'')
                 else oldScope @ ''/'' @ rest),
               dependencies := map_option (rekey (oldScope @ ''/'') (''@'' @ newName @ ''/'')) (dependencies m),
               devDependencies := map_option (rekey (oldScope @ ''/'') (''@'' @ newName @ ''/'')) (devDependencies m)\<rparr>)
          = Some (''@'' @ newName @ ''/'' @ rest)"
      by simp
    with entryManifest_updatedEntry [OF e(2) n] e(1) show ?thesis
      unfolding packageManifest_returned by simp
  qed
  from ret r p show ?thesis by blast
qed

theorem rename_scoped_packages_and_root_witness:
  "validName ''app'' \<and> currentScope exProject = Inr ''@old'' \<and>
   fst (renameProject exProject ''app'') = Returned \<and>
   rootPackageJson (snd (renameProject exProject ''app''))
     = Some (Parsed (JObject (exManifest ''app'' []))) \<and>
   (\<exists>m'. packageManifest (snd (renameProject exProject ''app'')) ''api'' = Some m' \<and>
         name m' = Some ''@app/api'') \<and>
   (\<exists>m'. packageManifest (snd (renameProject exProject ''app'')) ''ui'' = Some m' \<and>
         name m' = Some ''@app/ui'')"
proof -
  let ?ps = "[(''api'', exPackage ''@old/api'' [(''@old/ui'', ''1.0.0''), (''react'', ''18'')]
                     [File ''index.ts'' ''import \"@old/ui\"'']),
         (''ui'', exPackage ''@old/ui'' [] [])]"
  have h1: "validName ''app''" by code_simp
  have h2: "packages exProject = Some ?ps" by (simp add: exProject_def)
  have h3: "list_all (\<lambda>(pkg, e). updatable e) ?ps" by code_simp
  have h4: "rootPackageJson exProject = Some (Parsed (JObject (exManifest ''starter'' [])))"
    by (simp add: exProject_def)
  have h5: "currentScope exProject = Inr ''@old''" by code_simp
  have a: "packageManifest exProject ''api''
             = Some (exManifest ''@old/api'' [(''@old/ui'', ''1.0.0''), (''react'', ''18'')]) \<and>
           name (exManifest ''@old/api'' [(''@old/ui'', ''1.0.0''), (''react'', ''18'')])
             = Some (''@old'' @ ''/'' @ ''api'')"
    by code_simp
  have b: "packageManifest exProject ''ui'' = Some (exManifest ''@old/ui'' []) \<and>
           name (exManifest ''@old/ui'' []) = Some (''@old'' @ ''/'' @ ''ui'')"
    by code_simp
  from rename_scoped_packages_and_root [OF h1 h2 h3 h4 h5]
  obtain fs' where r: "renameProject exProject ''app'' = (Returned, fs')"
    and root: "rootPackageJson fs'
        = Some (Parsed (JObject ((exManifest ''starter'' [])\<lparr>name := Some ''app''\<rparr>)))"
    and p: "\<And>pkg m rest. packageManifest exProject pkg = Some m \<and>
              name m = Some (''@old'' @ ''/'' @ rest) \<Longrightarrow>
            \<exists>m'. packageManifest fs' pkg = Some m' \<and> name m' = Some (''@'' @ ''app'' @ ''/'' @ rest)"
    by blast
  from p [OF a] p [OF b] r root h1 h5 show ?thesis
    by (simp add: exManifest_def)
qed

subsection \<open>C2: running the rename twice\<close>

text \<open>
  Claim C2 at a concrete project: the first run moves \<open>@old/ui\<close> to
  \<open>@app/ui\<close>; the second run, with the same name, deletes \<open>@app/ui\<close>.
\<close>

theorem second_run_deletes_scoped_dependency:
  "fst (renameProject exProject ''app'') = Returned \<and>
   packageManifest (snd (renameProject exProject ''app'')) ''api''
     = Some (exManifest ''@app/api'' [(''react'', ''18''), (''@app/ui'', ''1.0.0'')]) \<and>
   fst (renameProject (snd (renameProject exProject ''app'')) ''app'') = Returned \<and>
   packageManifest (snd (renameProject (snd (renameProject exProject ''app'')) ''app'')) ''api''
     = Some (exManifest ''@app/api'' [(''react'', ''18'')])"
  by code_simp

subsection \<open>C3: dependency keys\<close>

text \<open>
  Claim C3 as stated fails: \<open>@app/ui\<close> does not begin with the old token, yet
  its value changes from \<open>2.0.0\<close> to \<open>1.0.0\<close>.
\<close>

theorem rekey_overwrites_existing_key:
  "\<not> prefix ''@old/'' ''@app/ui'' \<and>
   updateManifest ''@old/'' ''@app/''
     (JObject (exManifest ''@old/api'' [(''@app/ui'', ''2.0.0''), (''@old/ui'', ''1.0.0'')]))
   = Inr (JObject (exManifest ''@app/api'' [(''@app/ui'', ''1.0.0'')]))"
  by code_simp

text \<open>
  Claim C3, as amended.  When the old scope differs from \<open>@newName\<close>, in
  \<open>dependencies\<close> and in \<open>devDependencies\<close> alike: an entry whose key is the
  old token and a rest is moved, with its value, to the key made of the new token
  and that rest, and the old key is gone; every other key keeps its value, unless
  it is the new key of a moved entry.
\<close>

theorem updateManifest_rekeys_dependencies:
  assumes "validName newName" and "currentScope fs = Inr oldScope"
    and "oldScope \<noteq> ''@'' @ newName"
    and "updateManifest (oldScope @ ''/'') (''@'' @ newName @ ''/'') (JObject m) = Inr (JObject m')"
  shows "(\<forall>deps. dependencies m = Some deps \<and> distinct (map fst deps) \<longrightarrow>
            (\<exists>deps'. dependencies m' = Some deps' \<and>
               rekeyed (oldScope @ ''/'') (''@'' @ newName @ ''/'') deps deps')) \<and>
         (\<forall>deps. devDependencies m = Some deps \<and> distinct (map fst deps) \<longrightarrow>
            (\<exists>deps'. devDependencies m' = Some deps' \<and>
               rekeyed (oldScope @ ''/'') (''@'' @ newName @ ''/'') deps deps'))"
proof -
  from assms(4) have
    "dependencies m' =
       map_option (rekey (oldScope @ ''/'') (''@'' @ newName @ ''/'')) (dependencies m)"
    "devDependencies m' =
       map_option (rekey (oldScope @ ''/'') (''@'' @ newName @ ''/'')) (devDependencies m)"
    by (auto simp: updateManifest_def split: option.splits)
  with rekey_rekeyed [OF assms(1) currentScope_no_slash [OF assms(2)] assms(3)]
  show ?thesis by auto
qed

theorem updateManifest_rekeys_dependencies_witness:
  "validName ''app'' \<and> currentScope exProject = Inr ''@old'' \<and>
   updateManifest ''@old/'' ''@app/''
     (JObject \<lparr>name = Some ''@old/api'',
               dependencies = Some [(''@old/ui'', ''1.0.0''), (''react'', ''18'')],
               devDependencies = Some [(''@old/lint'', ''2.0.0'')], otherFields = []\<rparr>)
   = Inr (JObject \<lparr>name = Some ''@app/api'',
               dependencies = Some [(''react'', ''18''), (''@app/ui'', ''1.0.0'')],
               devDependencies = Some [(''@app/lint'', ''2.0.0'')], otherFields = []\<rparr>) \<and>
   rekeyed ''@old/'' ''@app/'' [(''@old/ui'', ''1.0.0''), (''react'', ''18'')]
     [(''react'', ''18''), (''@app/ui'', ''1.0.0'')] \<and>
   rekeyed ''@old/'' ''@app/'' [(''@old/lint'', ''2.0.0'')] [(''@app/lint'', ''2.0.0'')]"
proof -
  let ?m = "\<lparr>name = Some ''@old/api'',
               dependencies = Some [(''@old/ui'', ''1.0.0''), (''react'', ''18'')],
               devDependencies = Some [(''@old/lint'', ''2.0.0'')], otherFields = []\<rparr>"
  let ?m' = "\<lparr>name = Some ''@app/api'',
               dependencies = Some [(''react'', ''18''), (''@app/ui'', ''1.0.0'')],
               devDependencies = Some [(''@app/lint'', ''2.0.0'')], otherFields = []\<rparr>"
  have h1: "validName ''app''" by code_simp
  have h2: "currentScope exProject = Inr ''@old''" by code_simp
  have h3: "''@old'' \<noteq> ''@'' @ ''app''" by simp
  have h4: "updateManifest (''@old'' @ ''/'') (''@'' @ ''app'' @ ''/'') (JObject ?m)
            = Inr (JObject ?m')"
    by code_simp
  have d1: "dependencies ?m = Some [(''@old/ui'', ''1.0.0''), (''react'', ''18'')] \<and>
            distinct (map fst [(''@old/ui'', ''1.0.0''), (''react'', ''18'')])"
    by simp
  have d2: "devDependencies ?m = Some [(''@old/lint'', ''2.0.0'')] \<and>
            distinct (map fst [(''@old/lint'', ''2.0.0'')])"
    by simp
  from updateManifest_rekeys_dependencies [OF h1 h2 h3 h4] d1 d2
  have "(\<exists>deps'. dependencies ?m' = Some deps' \<and>
           rekeyed (''@old'' @ ''/'') (''@'' @ ''app'' @ ''/'')
             [(''@old/ui'', ''1.0.0''), (''react'', ''18'')] deps') \<and>
        (\<exists>deps'. devDependencies ?m' = Some deps' \<and>
           rekeyed (''@old'' @ ''/'') (''@'' @ ''app'' @ ''/'') [(''@old/lint'', ''2.0.0'')] deps')"
    by blast
  with h1 h2 h4 show ?thesis by simp
qed

subsection \<open>C4: a manifest that cannot be parsed\<close>

text \<open>
  Claim C4 as stated fails: the package listed after the unreadable manifest is
  not renamed, though the one listed before it is.
\<close>

theorem unreadable_manifest_aborts_later_packages:
  "currentScope exBroken = Inr ''@old'' \<and>
   packageManifest exBroken ''web'' = Some (exManifest ''@old/web'' []) \<and>
   fst (renameProject exBroken ''app'') = Threw JsonError \<and>
   packageManifest (snd (renameProject exBroken ''app'')) ''api'' = Some (exManifest ''@app/api'' []) \<and>
   packageManifest (snd (renameProject exBroken ''app'')) ''web'' = Some (exManifest ''@old/web'' [])"
  by code_simp

text \<open>
  Claim C4, as amended.  A manifest under \<open>packages/\<close> that cannot be parsed
  makes the rename throw, and the rename command reports the failure after that
  one call.  That package and all packages listed after it stay as
  they were, and the documentation is not rewritten.  When the scope detection,
  the root manifest and the packages listed before it went through, the error is
  the parse error, and the root manifest and those earlier packages stay
  rewritten.
\<close>

theorem unreadable_manifest_stops_rename:
  assumes "packages fs = Some (earlier @ (pkg, Directory d) # later)"
    and "packageJson d = Some Unreadable"
    and "renameProject fs newName = (r, fs')"
  shows "(\<exists>err. r = Threw err \<and>
            (\<forall>w dir. target w = Some fs \<and> validName newName \<longrightarrow>
               renameCommand w dir newName =
                 ([CallRenameProject dir newName, SpinnerFail err], Some fs'))) \<and>
         documentation fs' = documentation fs \<and>
         (\<exists>earlier'. packages fs' = Some (earlier' @ (pkg, Directory d) # later) \<and>
                     map fst earlier' = map fst earlier) \<and>
         (\<forall>sc root'. currentScope fs = Inr sc \<and>
              updateRoot newName (rootPackageJson fs) = Inr root' \<and>
              list_all (\<lambda>(pkg, e). updatable e) earlier \<longrightarrow>
            r = Threw JsonError \<and>
            fs' = fs\<lparr>rootPackageJson := root',
                      packages := Some (updatedEntries sc newName earlier
                                          @ (pkg, Directory d) # later)\<rparr>)"
proof -
  have n: "\<not> updatable (Directory d)"
    using assms(2) by (simp add: updatable_def)
  have u: "updateEntry old new newName (Directory d) = Inl JsonError" for old new
    using assms(2) by (simp add: updateEntry_def readJson_def)
  have p: "r = Threw JsonError \<and>
        fs' = fs\<lparr>rootPackageJson := root',
                  packages := Some (updatedEntries sc newName earlier
                                      @ (pkg, Directory d) # later)\<rparr>"
    if "currentScope fs = Inr sc" and "updateRoot newName (rootPackageJson fs) = Inr root'"
      and "list_all (\<lambda>(pkg, e). updatable e) earlier" for sc root'
    using renameProject_stops [OF assms(1) that(3) u that(1,2)] assms(3) by simp
  have c: "renameCommand w dir newName =
             ([CallRenameProject dir newName, SpinnerFail err], Some fs')"
    if "r = Threw err" and "target w = Some fs" and "validName newName" for w dir err
    using that assms(3) by (simp add: renameCommand_def)
  from renameProject_not_updatable [OF assms(1) n assms(3)] p c show ?thesis by blast
qed

theorem unreadable_manifest_stops_rename_witness:
  "packageJson exBrokenDir = Some Unreadable \<and> validName ''app'' \<and>
   fst (renameProject exBroken ''app'') = Threw JsonError \<and>
   renameCommand exBrokenEnv ''dir'' ''app'' =
     ([CallRenameProject ''dir'' ''app'', SpinnerFail JsonError],
      Some (snd (renameProject exBroken ''app''))) \<and>
   documentation (snd (renameProject exBroken ''app'')) = documentation exBroken \<and>
   snd (renameProject exBroken ''app'') =
     exBroken\<lparr>rootPackageJson := Some (Parsed (JObject (exManifest ''app'' []))),
               packages := Some ([(''api'', exPackage ''@app/api'' [] [])]
                                   @ (''broken'', Directory exBrokenDir)
                                   # [(''web'', exPackage ''@old/web'' [] [])])\<rparr>"
proof -
  let ?earlier = "[(''api'', exPackage ''@old/api'' [] [])]"
  let ?later = "[(''web'', exPackage ''@old/web'' [] [])]"
  let ?root = "Some (Parsed (JObject (exManifest ''app'' [])))"
  have h1: "packages exBroken = Some (?earlier @ (''broken'', Directory exBrokenDir) # ?later)"
    by (simp add: exBroken_def)
  have h2: "packageJson exBrokenDir = Some Unreadable"
    by (simp add: exBrokenDir_def)
  have h3: "renameProject exBroken ''app'' =
      (fst (renameProject exBroken ''app''), snd (renameProject exBroken ''app''))"
    by simp
  have a: "currentScope exBroken = Inr ''@old'' \<and>
           updateRoot ''app'' (rootPackageJson exBroken) = Inr ?root \<and>
           list_all (\<lambda>(pkg, e). updatable e) ?earlier"
    by code_simp
  have c: "target exBrokenEnv = Some exBroken \<and> validName ''app''"
    by code_simp
  have u: "updatedEntries ''@old'' ''app'' ?earlier = [(''api'', exPackage ''@app/api'' [] [])]"
    by code_simp
  from unreadable_manifest_stops_rename [OF h1 h2 h3] a c
  have "documentation (snd (renameProject exBroken ''app'')) = documentation exBroken \<and>
        fst (renameProject exBroken ''app'') = Threw JsonError \<and>
        renameCommand exBrokenEnv ''dir'' ''app'' =
          ([CallRenameProject ''dir'' ''app'', SpinnerFail JsonError],
           Some (snd (renameProject exBroken ''app''))) \<and>
        snd (renameProject exBroken ''app'') =
          exBroken\<lparr>rootPackageJson := ?root,
                    packages := Some (updatedEntries ''@old'' ''app'' ?earlier
                                        @ (''broken'', Directory exBrokenDir) # ?later)\<rparr>"
    by (metis outcome.inject)
  then show ?thesis unfolding u using h2 c by blast
qed

subsection \<open>C5: source files\<close>

text \<open>
  Claim C5 as stated fails: the file does not contain
  \<open>modern-fullstack-boilerplate\<close>, yet after its scope token has been replaced
  the new scope token itself is rewritten, because the new name contains that
  string.
\<close>

theorem new_name_containing_boilerplate_is_rewritten:
  "validName ''modern-fullstack-boilerplate-2'' \<and>
   \<not> js_includes ''import \"@repo/ui\"'' boilerplate \<and>
   sourceWrites ''@repo/'' ''@modern-fullstack-boilerplate-2/'' ''modern-fullstack-boilerplate-2''
     ''import \"@repo/ui\"''
   = [''import \"@modern-fullstack-boilerplate-2/ui\"'',
      ''import \"@modern-fullstack-boilerplate-2-2/ui\"'']"
  by code_simp

text \<open>
  Claim C5, as amended.  In a package that is rewritten, every file below
  \<open>src\<close>, at any depth, whose name ends in \<open>.ts\<close>, \<open>.tsx\<close>, \<open>.js\<close> or
  \<open>.jsx\<close> ends with this text: all occurrences of the old scope token are
  replaced with the new scope token, and then, in the text so obtained, all
  occurrences of \<open>modern-fullstack-boilerplate\<close> are replaced with the new
  name.  Every other file keeps its text, and a file that contains neither token
  is never written.
\<close>

theorem source_files_rewritten:
  assumes "validName newName"
    and "packageJson d = Some (Parsed (JObject m))" and "name m = Some n"
    and "src d = Some tree" and "wfTree tree" and "readFile tree file = Some content"
  shows "\<exists>d' tree'.
           updateEntry (oldScope @ ''/'') (''@'' @ newName @ ''/'') newName (Directory d)
             = Inr (Directory d') \<and>
           src d' = Some tree' \<and>
           readFile tree' file =
             Some (if isSourceFile file
                   then substituteAll boilerplate newName
                          (substituteAll (oldScope @ ''/'') (''@'' @ newName @ ''/'') content)
                   else content) \<and>
           (\<not> js_includes content (oldScope @ ''/'') \<and> \<not> js_includes content boilerplate \<longrightarrow>
              sourceWrites (oldScope @ ''/'') (''@'' @ newName @ ''/'') newName content = [])"
proof -
  let ?old = "oldScope @ ''/''" and ?new = "''@'' @ newName @ ''/''"
  obtain data' where u: "updateManifest ?old ?new (JObject m) = Inr data'"
    using assms(3) by (simp add: updateManifest_def)
  let ?d = "d\<lparr>packageJson := Some (Parsed data'),
              src := map_option (rewriteSources ?old ?new newName) (src d)\<rparr>"
  have e: "updateEntry ?old ?new newName (Directory d) = Inr (Directory ?d)"
    using assms(2) u by (simp add: updateEntry_def readJson_def)
  have s: "src ?d = Some (rewriteSources ?old ?new newName tree)"
    using assms(4) by simp
  have f: "finalText ?old ?new newName content =
           substituteAll boilerplate newName (substituteAll ?old ?new content)"
    by (rule finalText_eq) (use assms(1) in \<open>simp_all add: validName_no_dollar\<close>)
  have r: "readFile (rewriteSources ?old ?new newName tree) file =
           Some (if isSourceFile file
                 then substituteAll boilerplate newName (substituteAll ?old ?new content)
                 else content)"
    using readFile_rewriteSources [OF assms(5,6), of ?old ?new newName] f by simp
  from e s r sourceWrites_none [of content ?old ?new newName] show ?thesis by blast
qed

theorem source_files_rewritten_witness:
  "validName ''app'' \<and> isSourceFile [''lib'', ''util.js''] \<and>
   (\<exists>d' tree'.
      updateEntry ''@old/'' ''@app/'' ''app'' (Directory exSrcDir) = Inr (Directory d') \<and>
      src d' = Some tree' \<and>
      readFile tree' [''lib'', ''util.js''] = Some ''// app @app/ui'') \<and>
   \<not> js_includes ''export {}'' ''@old/'' \<and> \<not> js_includes ''export {}'' boilerplate \<and>
   sourceWrites ''@old/'' ''@app/'' ''app'' ''export {}'' = []"
proof -
  let ?tree = "[File ''index.ts'' ''import \"@old/ui\"'',
         Folder ''lib''
           [File ''util.js'' ''// modern-fullstack-boilerplate @old/ui'',
            File ''plain.ts'' ''export {}'',
            File ''notes.md'' ''@old/ui'']]"
  have h1: "validName ''app''" by code_simp
  have h2: "packageJson exSrcDir = Some (Parsed (JObject (exManifest ''@old/api'' [])))"
    by (simp add: exSrcDir_def)
  have h3: "name (exManifest ''@old/api'' []) = Some ''@old/api''"
    by (simp add: exManifest_def)
  have h4: "src exSrcDir = Some ?tree" by (simp add: exSrcDir_def)
  have h5: "wfTree ?tree" by simp
  have h6: "readFile ?tree [''lib'', ''util.js''] = Some ''// modern-fullstack-boilerplate @old/ui''"
    by simp
  have h7: "readFile ?tree [''lib'', ''plain.ts''] = Some ''export {}''"
    by simp
  have i: "isSourceFile [''lib'', ''util.js'']" by code_simp
  have n: "\<not> js_includes ''export {}'' (''@old'' @ ''/'') \<and>
           \<not> js_includes ''export {}'' boilerplate"
    by code_simp
  have v: "substituteAll boilerplate ''app''
             (substituteAll (''@old'' @ ''/'') (''@'' @ ''app'' @ ''/'')
                ''// modern-fullstack-boilerplate @old/ui'') = ''// app @app/ui''"
    by code_simp
  from source_files_rewritten [OF h1 h2 h3 h4 h5 h6, of "''@old''"]
  obtain d' tree' where
    "updateEntry (''@old'' @ ''/'') (''@'' @ ''app'' @ ''/'') ''app'' (Directory exSrcDir)
       = Inr (Directory d')"
    "src d' = Some tree'"
    "readFile tree' [''lib'', ''util.js''] =
       Some (if isSourceFile [''lib'', ''util.js'']
             then substituteAll boilerplate ''app''
                    (substituteAll (''@old'' @ ''/'') (''@'' @ ''app'' @ ''/'')
                       ''// modern-fullstack-boilerplate @old/ui'')
             else ''// modern-fullstack-boilerplate @old/ui'')"
    by blast
  then have a: "\<exists>d' tree'.
      updateEntry ''@old/'' ''@app/'' ''app'' (Directory exSrcDir) = Inr (Directory d') \<and>
      src d' = Some tree' \<and> readFile tree' [''lib'', ''util.js''] = Some ''// app @app/ui''"
    unfolding v using i by auto
  from source_files_rewritten [OF h1 h2 h3 h4 h5 h7, of "''@old''"] n
  have "sourceWrites (''@old'' @ ''/'') (''@'' @ ''app'' @ ''/'') ''app'' ''export {}'' = []"
    by blast
  with h1 i a n show ?thesis by simp
qed

subsection \<open>C6: scope detection\<close>

text \<open>
  Claim C6.  Scope detection goes through the entries of \<open>packages/\<close> in
  listing order.  The first entry whose manifest name starts with \<open>@\<close> and
  contains \<open>/\<close> gives the scope, the part of that name before the first
  \<open>/\<close>; the entries after it are not read, whatever they hold.  When every
  entry is passed over, or there is no \<open>packages/\<close>, the scope is
  \<open>@repo\<close>.
\<close>

theorem detectScope_first_match:
  "(list_all (\<lambda>(pkg, e). passedOver e) earlier \<and>
    packageJson d = Some (Parsed (JObject m)) \<and> name m = Some n \<and>
    prefix ''@'' n \<and> js_includes n ''/'' \<longrightarrow>
      currentScope (fs\<lparr>packages := Some (earlier @ (pkg, Directory d) # later)\<rparr>)
        = Inr (takeWhile (\<lambda>c. c \<noteq> CHR ''/'') n)) \<and>
   (list_all (\<lambda>(pkg, e). passedOver e) ps \<longrightarrow>
      currentScope (fs\<lparr>packages := Some ps\<rparr>) = Inr ''@repo'') \<and>
   currentScope (fs\<lparr>packages := None\<rparr>) = Inr ''@repo''"
proof (intro conjI impI)
  assume a: "list_all (\<lambda>(pkg, e). passedOver e) earlier \<and>
    packageJson d = Some (Parsed (JObject m)) \<and> name m = Some n \<and>
    prefix ''@'' n \<and> js_includes n ''/''"
  then have "detectScope (earlier @ (pkg, Directory d) # later)
      = detectScope ((pkg, Directory d) # later)"
    by (simp add: detectScope_passedOver)
  also have "\<dots> = Inr (takeWhile (\<lambda>c. c \<noteq> CHR ''/'') n)"
    using a detectScope_match [of d m n pkg later] by blast
  finally show "currentScope (fs\<lparr>packages := Some (earlier @ (pkg, Directory d) # later)\<rparr>)
        = Inr (takeWhile (\<lambda>c. c \<noteq> CHR ''/'') n)"
    by (simp add: currentScope_def)
next
  assume "list_all (\<lambda>(pkg, e). passedOver e) ps"
  then have "detectScope (ps @ []) = detectScope []"
    by (rule detectScope_passedOver)
  then show "currentScope (fs\<lparr>packages := Some ps\<rparr>) = Inr ''@repo''"
    by (simp add: currentScope_def)
next
  show "currentScope (fs\<lparr>packages := None\<rparr>) = Inr ''@repo''"
    by (simp add: currentScope_def)
qed

theorem detectScope_first_match_witness:
  "currentScope (exProject\<lparr>packages := Some
      ([(''notes.txt'', PlainFile)] @ (''api'', exPackage ''@old/api'' [] []) #
       [(''broken'', Directory \<lparr>packageJson = Some Unreadable, src = None, indexHtml = None\<rparr>)])\<rparr>)
     = Inr ''@old'' \<and>
   currentScope (exProject\<lparr>packages := Some [(''notes.txt'', PlainFile)]\<rparr>) = Inr ''@repo''"
proof -
  have a: "list_all (\<lambda>(pkg, e). passedOver e) [(''notes.txt'', PlainFile)]"
    by (simp add: passedOver_def)
  have b: "packageJson \<lparr>packageJson = Some (Parsed (JObject (exManifest ''@old/api'' []))),
                src = Some [], indexHtml = None\<rparr> = Some (Parsed (JObject (exManifest ''@old/api'' [])))"
    by simp
  have c: "name (exManifest ''@old/api'' []) = Some ''@old/api''"
    by (simp add: exManifest_def)
  have d: "prefix ''@'' ''@old/api'' \<and> js_includes ''@old/api'' ''/''"
    by simp
  from detectScope_first_match [where earlier = "[(''notes.txt'', PlainFile)]"
      and d = "\<lparr>packageJson = Some (Parsed (JObject (exManifest ''@old/api'' []))),
                src = Some [], indexHtml = None\<rparr>"
      and m = "exManifest ''@old/api'' []" and n = "''@old/api''" and fs = exProject
      and pkg = "''api''"
      and later = "[(''broken'', Directory \<lparr>packageJson = Some Unreadable, src = None, indexHtml = None\<rparr>)]"
      and ps = "[(''notes.txt'', PlainFile)]"] a b c d
  show ?thesis by (simp add: exPackage_def)
qed

subsection \<open>C7: the fallback scope\<close>




subsection \<open>C8: the rename command calls twice\<close>

text \<open>
  Claim C8.  Whenever the rename command reaches its folder step, it has called
  \<open>renameProject\<close> and reported success exactly twice before it, both times
  with the same directory and name; the second call ran on the tree the first
  call left.
\<close>

theorem renameCommand_calls_twice:
  assumes "renameCommand w targetDir newName = (evs, r)"
    and "ev \<in> set evs" and "relocationStep ev"
  shows "evs = [CallRenameProject targetDir newName, SpinnerSucceed,
                CallRenameProject targetDir newName, SpinnerSucceed, ev] \<and>
         (\<exists>fs fs1 fs2. target w = Some fs \<and> renameProject fs newName = (Returned, fs1) \<and>
            renameProject fs1 newName = (Returned, fs2) \<and> r = Some fs2)"
  using assms
  by (auto simp: renameCommand_def relocationStep_def
           split: option.splits if_splits prod.splits outcome.splits)

theorem renameCommand_calls_twice_witness:
  "FolderRenamed ''app'' \<in> set (fst (renameCommand exEnv ''dir'' ''app'')) \<and>
   relocationStep (FolderRenamed ''app'') \<and>
   fst (renameCommand exEnv ''dir'' ''app'') =
     [CallRenameProject ''dir'' ''app'', SpinnerSucceed,
      CallRenameProject ''dir'' ''app'', SpinnerSucceed, FolderRenamed ''app'']"
proof -
  have h1: "renameCommand exEnv ''dir'' ''app'' =
      (fst (renameCommand exEnv ''dir'' ''app''), snd (renameCommand exEnv ''dir'' ''app''))"
    by simp
  have h2: "FolderRenamed ''app'' \<in> set (fst (renameCommand exEnv ''dir'' ''app''))"
    by code_simp
  have h3: "relocationStep (FolderRenamed ''app'')"
    by (simp add: relocationStep_def)
  from renameCommand_calls_twice [OF h1 h2 h3] h2 h3 show ?thesis by blast
qed

subsection \<open>C9: the old token as the new token\<close>

text \<open>
  Claim C9.  When the old scope token is the new scope token \<open>@newName/\<close>,
  rewriting a manifest removes from \<open>dependencies\<close> and from
  \<open>devDependencies\<close> every key that begins with the token, and keeps the
  other entries: the entry is assigned to its own key and then deleted.
\<close>

theorem same_token_deletes_dependencies:
  assumes "validName newName" and "oldScopeToken = ''@'' @ newName @ ''/''"
    and "name m = Some n"
  shows "updateManifest oldScopeToken (''@'' @ newName @ ''/'') (JObject m) =
         Inr (JObject (m\<lparr>
           dependencies :=
             map_option (filter (\<lambda>(k, v). \<not> prefix oldScopeToken k)) (dependencies m),
           devDependencies :=
             map_option (filter (\<lambda>(k, v). \<not> prefix oldScopeToken k)) (devDependencies m)\<rparr>))"
proof -
  have d: "CHR ''$'' \<notin> set oldScopeToken"
    using assms(1,2) newScopeToken_no_dollar by simp
  have "prefix oldScopeToken n \<Longrightarrow> replace n oldScopeToken oldScopeToken = n"
    using d by (auto simp: replace_prefix prefix_def)
  then have n: "(if prefix oldScopeToken n then replace n oldScopeToken oldScopeToken else n) = n"
    by simp
  have k: "rekey oldScopeToken oldScopeToken = filter (\<lambda>(k, v). \<not> prefix oldScopeToken k)"
    using rekey_same [OF d] by (intro ext)
  have "m\<lparr>name := Some n\<rparr> = m"
    using assms(3) by simp
  then show ?thesis
    unfolding updateManifest_def assms(2)[symmetric]
    by (simp add: assms(3) n k)
qed

theorem same_token_deletes_dependencies_witness:
  "validName ''app'' \<and>
   updateManifest ''@app/'' ''@app/''
     (JObject (exManifest ''@app/api'' [(''@app/ui'', ''1.0.0''), (''react'', ''18'')])) =
   Inr (JObject (exManifest ''@app/api'' [(''react'', ''18'')]))"
proof -
  have h1: "validName ''app''" by code_simp
  have h2: "''@app/'' = ''@'' @ ''app'' @ ''/''" by simp
  have h3: "name (exManifest ''@app/api'' [(''@app/ui'', ''1.0.0''), (''react'', ''18'')])
            = Some ''@app/api''"
    by (simp add: exManifest_def)
  from same_token_deletes_dependencies [OF h1 h2 h3] h1 show ?thesis
    by (simp add: exManifest_def)
qed

subsection \<open>C10: a manifest without a name\<close>

text \<open>
  Claim C10.  A manifest under \<open>packages/\<close> without a name makes the rename
  throw.  That package and all packages listed after it stay as they were, and
  the documentation is not rewritten.  When the scope detection, the root
  manifest and the packages listed before it went through, the error is the
  TypeError of the name access, and the root manifest and those earlier packages
  stay rewritten.
\<close>

theorem nameless_manifest_stops_rename:
  assumes "packages fs = Some (earlier @ (pkg, Directory d) # later)"
    and "packageJson d = Some (Parsed (JObject m))" and "name m = None"
    and "renameProject fs newName = (r, fs')"
  shows "(\<exists>err. r = Threw err) \<and> documentation fs' = documentation fs \<and>
         (\<exists>earlier'. packages fs' = Some (earlier' @ (pkg, Directory d) # later) \<and>
                     map fst earlier' = map fst earlier) \<and>
         (\<forall>sc root'. currentScope fs = Inr sc \<and>
              updateRoot newName (rootPackageJson fs) = Inr root' \<and>
              list_all (\<lambda>(pkg, e). updatable e) earlier \<longrightarrow>
            r = Threw TypeError \<and>
            fs' = fs\<lparr>rootPackageJson := root',
                      packages := Some (updatedEntries sc newName earlier
                                          @ (pkg, Directory d) # later)\<rparr>)"
proof -
  have n: "\<not> updatable (Directory d)"
    using assms(2,3) by (simp add: updatable_def)
  have u: "updateEntry old new newName (Directory d) = Inl TypeError" for old new
    using assms(2,3) by (simp add: updateEntry_def updateManifest_def readJson_def)
  have "r = Threw TypeError \<and>
        fs' = fs\<lparr>rootPackageJson := root',
                  packages := Some (updatedEntries sc newName earlier
                                      @ (pkg, Directory d) # later)\<rparr>"
    if "currentScope fs = Inr sc" and "updateRoot newName (rootPackageJson fs) = Inr root'"
      and "list_all (\<lambda>(pkg, e). updatable e) earlier" for sc root'
    using renameProject_stops [OF assms(1) that(3) u that(1,2)] assms(4) by simp
  with renameProject_not_updatable [OF assms(1) n assms(4)] show ?thesis by blast
qed

theorem nameless_manifest_stops_rename_witness:
  "packageJson exNamelessDir = Some (Parsed (JObject exNamelessManifest)) \<and>
   name exNamelessManifest = None \<and>
   fst (renameProject exNameless ''app'') = Threw TypeError \<and>
   documentation (snd (renameProject exNameless ''app'')) = documentation exNameless \<and>
   snd (renameProject exNameless ''app'') =
     exNameless\<lparr>rootPackageJson := Some (Parsed (JObject (exManifest ''app'' []))),
                 packages := Some ([(''api'', exPackage ''@app/api'' [] [])]
                                     @ (''tools'', Directory exNamelessDir)
                                     # [(''web'', exPackage ''@old/web'' [] [])])\<rparr>"
proof -
  let ?earlier = "[(''api'', exPackage ''@old/api'' [] [])]"
  let ?later = "[(''web'', exPackage ''@old/web'' [] [])]"
  let ?root = "Some (Parsed (JObject (exManifest ''app'' [])))"
  have h1: "packages exNameless = Some (?earlier @ (''tools'', Directory exNamelessDir) # ?later)"
    by (simp add: exNameless_def)
  have h2: "packageJson exNamelessDir = Some (Parsed (JObject exNamelessManifest))"
    by (simp add: exNamelessDir_def)
  have h3: "name exNamelessManifest = None"
    by (simp add: exNamelessManifest_def)
  have h4: "renameProject exNameless ''app'' =
      (fst (renameProject exNameless ''app''), snd (renameProject exNameless ''app''))"
    by simp
  have a: "currentScope exNameless = Inr ''@old'' \<and>
           updateRoot ''app'' (rootPackageJson exNameless) = Inr ?root \<and>
           list_all (\<lambda>(pkg, e). updatable e) ?earlier"
    by code_simp
  have u: "updatedEntries ''@old'' ''app'' ?earlier = [(''api'', exPackage ''@app/api'' [] [])]"
    by code_simp
  from nameless_manifest_stops_rename [OF h1 h2 h3 h4] a
  have "documentation (snd (renameProject exNameless ''app'')) = documentation exNameless \<and>
        fst (renameProject exNameless ''app'') = Threw TypeError \<and>
        snd (renameProject exNameless ''app'') =
          exNameless\<lparr>rootPackageJson := ?root,
                      packages := Some (updatedEntries ''@old'' ''app'' ?earlier
                                          @ (''tools'', Directory exNamelessDir) # ?later)\<rparr>"
    by blast
  then show ?thesis unfolding u using h2 h3 by blast
qed

end
